theory Spec2Isabelle
  imports Main "HOL-Library.Multiset" "HOL-Library.Sublist"
begin

section \<open>Data model (lib/db/schema.ts)\<close>

text \<open>
  The columns of the \<open>players\<close> table that the draft engine reads. Nullable columns
  (\<open>team\<close>, \<open>position\<close>, \<open>adp\<close>) are options; \<open>adp\<close> is a Postgres integer.
  Identifiers (uuid columns) are strings.
\<close>

record player =
  player_id :: string
  fullName :: string
  team :: "string option"
  position :: "string option"
  adp :: "int option"

datatype draftType = snake | auction | linear

datatype draftStatus = st_setup | st_in_progress | st_completed | st_abandoned

text \<open>
  The \<open>drafts\<close> table. \<open>currentRound\<close> and \<open>currentPick\<close> have a default but no
  \<open>notNull()\<close>, so they are nullable.
\<close>

record draft =
  draft_id :: string
  userId :: string
  draftType :: draftType
  numTeams :: int
  draftPosition :: int
  rosterSize :: int
  currentRound :: "int option"
  currentPick :: "int option"
  status :: draftStatus

text \<open>
  The \<open>draft_picks\<close> table: a primary key \<open>id\<close>, and plain (non-unique) indexes on
  \<open>draft_id\<close>, \<open>player_id\<close> and \<open>team_number\<close>. \<open>is_user_pick\<close> is nullable.
\<close>

record draftPick =
  pick_id :: string
  pick_draftId :: string
  pick_playerId :: string
  pick_teamNumber :: int
  pick_round :: int
  pick_pickNumber :: int
  pick_pickInRound :: int
  pick_isUserPick :: "bool option"

section \<open>Roster analyzer (lib/ai/draft-recommendations, analyzeRoster)\<close>

text \<open>Template literals print numbers in decimal.\<close>

fun showNat :: "nat \<Rightarrow> string" where
  "showNat n =
     (if n < 10 then [''0123456789'' ! n]
      else showNat (n div 10) @ [''0123456789'' ! (n mod 10)])"

declare showNat.simps [simp del]

definition showInt :: "int \<Rightarrow> string" where
  "showInt i = (if i < 0 then CHR ''-'' # showNat (nat (- i)) else showNat (nat i))"

text \<open>\<open>IDEAL_ROSTER_COMPOSITION\<close>, in the order \<open>Object.entries\<close> enumerates it.\<close>

definition IDEAL_ROSTER_COMPOSITION :: "(string \<times> int) list" where
  "IDEAL_ROSTER_COMPOSITION =
     [(''PG'', 2), (''SG'', 2), (''SF'', 2), (''PF'', 2), (''C'', 2)]"

text \<open>\<open>player.position || 'UTIL'\<close>: a null and an empty position are both falsy.\<close>

definition primaryPosition :: "player \<Rightarrow> string" where
  "primaryPosition p =
     (case position p of None \<Rightarrow> ''UTIL'' | Some s \<Rightarrow> if s = [] then ''UTIL'' else s)"

text \<open>\<open>positionCounts[pos] || 0\<close>: a missing key reads as 0.\<close>

definition countOr0 :: "(string \<rightharpoonup> nat) \<Rightarrow> string \<Rightarrow> nat" where
  "countOr0 positionCounts pos = (case positionCounts pos of None \<Rightarrow> 0 | Some c \<Rightarrow> c)"

text \<open>The first loop: \<open>for (const player of roster)\<close>.\<close>

fun countPositions :: "player list \<Rightarrow> (string \<rightharpoonup> nat) \<Rightarrow> (string \<rightharpoonup> nat)" where
  "countPositions [] positionCounts = positionCounts"
| "countPositions (p # roster) positionCounts =
     (let pos = primaryPosition p
      in countPositions roster (positionCounts(pos \<mapsto> countOr0 positionCounts pos + 1)))"

definition strengthEntry :: "string \<Rightarrow> nat \<Rightarrow> string" where
  "strengthEntry pos cnt = pos @ '' ('' @ showNat cnt @ '')''"

definition needEntry :: "string \<Rightarrow> nat \<Rightarrow> int \<Rightarrow> string" where
  "needEntry pos cnt ideal =
     pos @ '' (have '' @ showNat cnt @ '', need '' @ showInt ideal @ '')''"

text \<open>
  The second loop: \<open>for (const [pos, ideal] of Object.entries(...))\<close>, pushing onto the
  two arrays.
\<close>

fun analyzeEntries ::
  "(string \<times> int) list \<Rightarrow> (string \<rightharpoonup> nat) \<Rightarrow> string list \<times> string list
     \<Rightarrow> string list \<times> string list" where
  "analyzeEntries [] positionCounts (strengths, needs) = (strengths, needs)"
| "analyzeEntries ((pos, ideal) # entries) positionCounts (strengths, needs) =
     (let cnt = countOr0 positionCounts pos
      in if int cnt \<ge> ideal then
           analyzeEntries entries positionCounts (strengths @ [strengthEntry pos cnt], needs)
         else if int cnt < ideal - 1 then
           analyzeEntries entries positionCounts (strengths, needs @ [needEntry pos cnt ideal])
         else analyzeEntries entries positionCounts (strengths, needs))"

record rosterAnalysis =
  strengths :: "string list"
  needs :: "string list"

text \<open>
  \<open>analyzeRoster\<close> with the composition table as an argument; the source's function is
  the instance at \<open>IDEAL_ROSTER_COMPOSITION\<close>. The counts are read from a plain map, as
  the source's object behaves for position names that are not names of inherited object
  properties, which holds for the five of the table.
\<close>

definition analyzeRosterWith :: "(string \<times> int) list \<Rightarrow> player list \<Rightarrow> rosterAnalysis" where
  "analyzeRosterWith table roster =
     (let positionCounts = countPositions roster Map.empty;
          (strengths, needs) = analyzeEntries table positionCounts ([], [])
      in \<lparr>strengths = strengths,
          needs = (if length needs = 0 then needs @ [''Roster is well-balanced''] else needs)\<rparr>)"

definition analyzeRoster :: "player list \<Rightarrow> rosterAnalysis" where
  "analyzeRoster roster = analyzeRosterWith IDEAL_ROSTER_COMPOSITION roster"

text \<open>The number of roster players whose primary position is \<open>pos\<close>.\<close>

definition playersAt :: "player list \<Rightarrow> string \<Rightarrow> nat" where
  "playersAt roster pos = length (filter (\<lambda>p. primaryPosition p = pos) roster)"

definition corePositions :: "string set" where
  "corePositions = {''PG'', ''SG'', ''SF'', ''PF'', ''C''}"

definition mkPlayer :: "string \<Rightarrow> string \<Rightarrow> string option \<Rightarrow> int option \<Rightarrow> player" where
  "mkPlayer i n pos a = \<lparr>player_id = i, fullName = n, team = None, position = pos, adp = a\<rparr>"

section \<open>Recommendation engine (lib/ai/draft-recommendations)\<close>

text \<open>
  \<open>DraftContext\<close>. The picks travel with their joined player (null when the join finds
  none).
\<close>

record draftContext =
  ctx_draft :: draft
  ctx_picks :: "(draftPick \<times> player option) list"
  availablePlayers :: "player list"
  userRoster :: "player list"
  ctx_currentPick :: int
  userTeamNumber :: int

text \<open>
  \<open>PlayerRecommendation\<close>. Position and reasoning can be \<open>undefined\<close> at run time when
  they are copied from a provider item that lacks the field.
\<close>

record playerRecommendation =
  rec_playerId :: string
  rec_playerName :: string
  rec_position :: "string option"
  rec_team :: "string option"
  reasoning :: "string option"
  score :: int
  tags :: "string list"

record recommendationsResult =
  recommendations :: "playerRecommendation list"
  strategy :: string
  rosterAnalysis :: rosterAnalysis

text \<open>The sort key \<open>a.adp || 999\<close>: null and 0 are both falsy.\<close>

definition adpKey :: "player \<Rightarrow> int" where
  "adpKey p = (case adp p of None \<Rightarrow> 999 | Some a \<Rightarrow> if a = 0 then 999 else a)"

text \<open>
  \<open>.filter(p => p.adp !== null).sort((a, b) => (a.adp || 999) - (b.adp || 999)).slice(0, n)\<close>,
  the expression shared by the prompt builder (n = 30), both fallbacks of the parser and
  the fallback recommendations (n = 5). \<open>Array.prototype.sort\<close> is stable, and a
  comparator that subtracts keys orders by key: a stable insertion sort by key.
\<close>

definition topByAdp :: "nat \<Rightarrow> player list \<Rightarrow> player list" where
  "topByAdp n pool = take n (sort_key adpKey (filter (\<lambda>p. adp p \<noteq> None) pool))"

text \<open>The candidate list of \<open>buildRecommendationPrompt\<close> and its rendering in the prompt.\<close>

definition topAvailable :: "draftContext \<Rightarrow> player list" where
  "topAvailable ctx = topByAdp 30 (availablePlayers ctx)"

definition showNullable :: "string option \<Rightarrow> string" where
  "showNullable s = (case s of None \<Rightarrow> ''null'' | Some t \<Rightarrow> t)"

definition candidateLine :: "nat \<times> player \<Rightarrow> string" where
  "candidateLine ip =
     (case ip of (i, p) \<Rightarrow>
        showNat (i + 1) @ ''. '' @ fullName p @ '' ('' @ showNullable (position p) @ '') - ''
        @ showNullable (team p) @ '' - ADP: ''
        @ (case adp p of None \<Rightarrow> ''null'' | Some a \<Rightarrow> showInt a))"

definition candidateSection :: "draftContext \<Rightarrow> string list" where
  "candidateSection ctx = map candidateLine (enumerate 0 (topAvailable ctx))"

text \<open>
  The provider's answer after the code fence is stripped and \<open>JSON.parse\<close> has run: the
  fields the parser reads, each absent (\<open>undefined\<close>) or present. An item's
  \<open>playerName\<close> is absent also when it is not a string.
\<close>

record aiItem =
  ai_playerName :: "string option"
  ai_position :: "string option"
  ai_reasoning :: "string option"
  ai_score :: "int option"
  ai_tags :: "string list option"

record aiResponse =
  ai_recommendations :: "aiItem list option"
  ai_strategy :: "string option"
  ai_rosterNeeds :: "string list option"

text \<open>\<open>toLowerCase\<close> on the ASCII letters, and \<open>String.prototype.includes\<close>.\<close>

definition toLowerChar :: "char \<Rightarrow> char" where
  "toLowerChar c =
     (case map_of (zip ''ABCDEFGHIJKLMNOPQRSTUVWXYZ'' ''abcdefghijklmnopqrstuvwxyz'') c of
        None \<Rightarrow> c
      | Some l \<Rightarrow> l)"

definition toLowerCase :: "string \<Rightarrow> string" where
  "toLowerCase s = map toLowerChar s"

definition includes_str :: "string \<Rightarrow> string \<Rightarrow> bool" where
  "includes_str s needle = sublist needle s"

definition nameMatches :: "string \<Rightarrow> player \<Rightarrow> bool" where
  "nameMatches playerName p =
     (includes_str (toLowerCase (fullName p)) (toLowerCase playerName)
      \<or> includes_str (toLowerCase playerName) (toLowerCase (fullName p)))"

text \<open>
  \<open>availablePlayers.find(...)\<close> for one provider item. The callback calls
  \<open>rec.playerName.toLowerCase()\<close>, which throws when the item has no \<open>playerName\<close>; the
  callback only runs when there is a player to test. \<open>Inl ()\<close> is the throw.
\<close>

definition findPlayer :: "player list \<Rightarrow> aiItem \<Rightarrow> unit + player option" where
  "findPlayer pool item =
     (case ai_playerName item of
        None \<Rightarrow> (if pool = [] then Inr None else Inl ())
      | Some playerName \<Rightarrow> Inr (find (nameMatches playerName) pool))"

definition orElse :: "string option \<Rightarrow> string option \<Rightarrow> string option" where
  "orElse a b = (case a of None \<Rightarrow> b | Some s \<Rightarrow> if s = [] then b else a)"

definition matchedRecommendation :: "player \<Rightarrow> aiItem \<Rightarrow> playerRecommendation" where
  "matchedRecommendation p item =
     \<lparr>rec_playerId = player_id p,
      rec_playerName = fullName p,
      rec_position = orElse (position p) (ai_position item),
      rec_team = team p,
      reasoning = ai_reasoning item,
      score = (case ai_score item of None \<Rightarrow> 75 | Some s \<Rightarrow> if s = 0 then 75 else s),
      tags = (case ai_tags item of None \<Rightarrow> [] | Some ts \<Rightarrow> ts)\<rparr>"

text \<open>The loop \<open>for (const rec of parsed.recommendations || [])\<close>.\<close>

fun mapRecommendations ::
  "player list \<Rightarrow> aiItem list \<Rightarrow> playerRecommendation list
     \<Rightarrow> unit + playerRecommendation list" where
  "mapRecommendations pool [] recs = Inr recs"
| "mapRecommendations pool (item # items) recs =
     (case findPlayer pool item of
        Inl e \<Rightarrow> Inl e
      | Inr None \<Rightarrow> mapRecommendations pool items recs
      | Inr (Some p) \<Rightarrow>
          mapRecommendations pool items (recs @ [matchedRecommendation p item]))"

text \<open>The entry both fallbacks inside \<open>parseAIResponse\<close> build for a player.\<close>

definition bestAvailableEntry :: "player \<Rightarrow> playerRecommendation" where
  "bestAvailableEntry p =
     \<lparr>rec_playerId = player_id p,
      rec_playerName = fullName p,
      rec_position = Some (primaryPosition p),
      rec_team = team p,
      reasoning = Some ''Best available player by ADP'',
      score = 70,
      tags = [''best available'']\<rparr>"

definition nonEmptyOr :: "string option \<Rightarrow> string \<Rightarrow> string" where
  "nonEmptyOr a d = (case a of None \<Rightarrow> d | Some s \<Rightarrow> if s = [] then d else s)"

text \<open>
  \<open>parseAIResponse\<close>, from the result of \<open>JSON.parse\<close> on: \<open>None\<close> when
  \<open>JSON.parse\<close> throws or the value it returns cannot be read as an \<open>aiResponse\<close>
  (reading it throws). Every throw inside the \<open>try\<close> block lands in the \<open>catch\<close>
  branch.
\<close>

definition parseAIResponse :: "aiResponse option \<Rightarrow> player list \<Rightarrow> recommendationsResult" where
  "parseAIResponse parsedJson pool =
     (let caught =
        \<lparr>recommendations = map bestAvailableEntry (topByAdp 5 pool),
         strategy = ''Draft the best available player'',
         rosterAnalysis = \<lparr>strengths = [], needs = []\<rparr>\<rparr>
      in case parsedJson of
           None \<Rightarrow> caught
         | Some parsed \<Rightarrow>
             (case mapRecommendations pool
                     (case ai_recommendations parsed of None \<Rightarrow> [] | Some items \<Rightarrow> items) [] of
                Inl e \<Rightarrow> caught
              | Inr recs \<Rightarrow>
                  (let recs' = (if length recs = 0
                                then recs @ map bestAvailableEntry (topByAdp 5 pool)
                                else recs)
                   in \<lparr>recommendations = take 5 recs',
                       strategy = nonEmptyOr (ai_strategy parsed) ''Draft the best available player'',
                       rosterAnalysis =
                         \<lparr>strengths = [],
                          needs = (case ai_rosterNeeds parsed of None \<Rightarrow> [] | Some ns \<Rightarrow> ns)\<rparr>\<rparr>)))"

text \<open>\<open>getFallbackRecommendations\<close>.\<close>

definition fallbackEntry :: "draftContext \<Rightarrow> nat \<times> player \<Rightarrow> playerRecommendation" where
  "fallbackEntry ctx ip =
     (case ip of (index, p) \<Rightarrow>
        \<lparr>rec_playerId = player_id p,
         rec_playerName = fullName p,
         rec_position = Some (primaryPosition p),
         rec_team = team p,
         reasoning = Some (if index = 0 then ''Best available player by ADP''
                           else ''Strong value at pick '' @ showInt (ctx_currentPick ctx)),
         score = 80 - int index * 5,
         tags = (if index = 0 then [''best available''] else [''value pick''])\<rparr>)"

definition getFallbackRecommendations :: "draftContext \<Rightarrow> recommendationsResult" where
  "getFallbackRecommendations ctx =
     (let sortedPlayers =
            sort_key adpKey (filter (\<lambda>p. adp p \<noteq> None) (availablePlayers ctx))
      in \<lparr>recommendations = map (fallbackEntry ctx) (enumerate 0 (take 5 sortedPlayers)),
          strategy = ''Draft the best available player based on ADP rankings'',
          rosterAnalysis = analyzeRoster (userRoster ctx)\<rparr>)"

text \<open>
  What \<open>generateRecommendations\<close> meets at the provider: no API key configured,
  \<open>generateText\<close> throwing, or a text (given by what \<open>JSON.parse\<close> makes of it).
\<close>

datatype providerOutcome = NoProvider | GenerateFailed | Generated "aiResponse option"

definition generateRecommendations :: "draftContext \<Rightarrow> providerOutcome \<Rightarrow> recommendationsResult" where
  "generateRecommendations ctx outcome =
     (case outcome of
        NoProvider \<Rightarrow> getFallbackRecommendations ctx
      | GenerateFailed \<Rightarrow> getFallbackRecommendations ctx
      | Generated parsedJson \<Rightarrow> parseAIResponse parsedJson (availablePlayers ctx))"

text \<open>Sample data: six available players with ADP 1 to 6, given out of order.\<close>

definition sampleDraft :: draft where
  "sampleDraft =
     \<lparr>draft_id = ''d1'', userId = ''u1'', draftType = snake, numTeams = 12, draftPosition = 6,
      rosterSize = 13, currentRound = Some 1, currentPick = Some 1, status = st_setup\<rparr>"

definition sixPlayers :: "player list" where
  "sixPlayers =
     [mkPlayer ''a3'' ''Player Three'' (Some ''SF'') (Some 3),
      mkPlayer ''a1'' ''Player One'' (Some ''PG'') (Some 1),
      mkPlayer ''a6'' ''Player Six'' (Some ''C'') (Some 6),
      mkPlayer ''a2'' ''Player Two'' (Some ''SG'') (Some 2),
      mkPlayer ''a5'' ''Player Five'' (Some ''PF'') (Some 5),
      mkPlayer ''a4'' ''Player Four'' None (Some 4)]"

definition sampleContext :: "player list \<Rightarrow> draftContext" where
  "sampleContext pool =
     \<lparr>ctx_draft = sampleDraft, ctx_picks = [], availablePlayers = pool, userRoster = [],
      ctx_currentPick = 1, userTeamNumber = 6\<rparr>"

definition emptyAnswer :: aiResponse where
  "emptyAnswer = \<lparr>ai_recommendations = Some [], ai_strategy = None, ai_rosterNeeds = None\<rparr>"

text \<open>
  What "the \<open>n\<close> lowest by ADP" means for a result \<open>chosen\<close> drawn from \<open>pool\<close>: it holds
  \<open>n\<close> of the players with a non-null ADP (all of them when there are fewer), in
  ascending order of the sort key, and no player left out has a smaller key than a player
  taken.
\<close>

definition ranked :: "player list \<Rightarrow> player list" where
  "ranked pool = filter (\<lambda>p. adp p \<noteq> None) pool"

definition lowestByKey :: "nat \<Rightarrow> player list \<Rightarrow> player list \<Rightarrow> bool" where
  "lowestByKey n pool chosen \<longleftrightarrow>
     length chosen = min n (length (ranked pool))
     \<and> mset chosen \<subseteq># mset (ranked pool)
     \<and> sorted (map adpKey chosen)
     \<and> (\<forall>p \<in> set chosen. \<forall>q \<in># mset (ranked pool) - mset chosen. adpKey p \<le> adpKey q)"

text \<open>Ascending order of the ADP itself, for two ranked players.\<close>

definition adpLe :: "player \<Rightarrow> player \<Rightarrow> bool" where
  "adpLe p q = (case (adp p, adp q) of (Some a, Some b) \<Rightarrow> a \<le> b | _ \<Rightarrow> False)"

text \<open>
  The provider answered, and the answer gives nothing usable: \<open>JSON.parse\<close> threw, the
  mapping loop threw, or no item resolved to an available player.
\<close>

definition zeroUsable :: "aiResponse option \<Rightarrow> player list \<Rightarrow> bool" where
  "zeroUsable parsedJson pool =
     (case parsedJson of
        None \<Rightarrow> True
      | Some parsed \<Rightarrow>
          (case mapRecommendations pool
                  (case ai_recommendations parsed of None \<Rightarrow> [] | Some items \<Rightarrow> items) [] of
             Inl e \<Rightarrow> True
           | Inr recs \<Rightarrow> recs = []))"

section \<open>Draft board of the draft room page (DraftRoomPage)\<close>

text \<open>
  The page's \<open>DraftPick\<close> entries: round, overall pick and the 0-based index of the team
  on the clock.
\<close>

record boardPick =
  bp_round :: int
  bp_pick :: int
  teamIndex :: int

text \<open>The body of the inner loop: the entry pushed for \<open>round\<close> and \<open>pick\<close>.\<close>

definition boardEntry :: "nat \<Rightarrow> nat \<Rightarrow> nat \<Rightarrow> boardPick" where
  "boardEntry nTeams rnd pick =
     \<lparr>bp_round = int rnd,
      bp_pick = (int rnd - 1) * int nTeams + int pick,
      teamIndex = (if int rnd mod 2 = 1 then int pick - 1 else int nTeams - int pick)\<rparr>"

text \<open>\<open>for (let pick = 1; pick <= numTeams; pick++)\<close>, from the current \<open>pick\<close> on.\<close>

function pickLoop :: "nat \<Rightarrow> nat \<Rightarrow> nat \<Rightarrow> boardPick list \<Rightarrow> boardPick list" where
  "pickLoop nTeams rnd pick board =
     (if pick \<le> nTeams
      then pickLoop nTeams rnd (pick + 1) (board @ [boardEntry nTeams rnd pick])
      else board)"
  by pat_completeness auto
termination
  by (relation "measure (\<lambda>(nTeams, rnd, pick, board). Suc nTeams - pick)") auto

declare pickLoop.simps [simp del]

text \<open>\<open>for (let round = 1; round <= numRounds; round++)\<close>, from the current round on.\<close>

function roundLoop :: "nat \<Rightarrow> nat \<Rightarrow> nat \<Rightarrow> boardPick list \<Rightarrow> boardPick list" where
  "roundLoop nRounds nTeams rnd board =
     (if rnd \<le> nRounds
      then roundLoop nRounds nTeams (rnd + 1) (pickLoop nTeams rnd 1 board)
      else board)"
  by pat_completeness auto
termination
  by (relation "measure (\<lambda>(nRounds, nTeams, rnd, board). Suc nRounds - rnd)") auto

declare roundLoop.simps [simp del]

text \<open>
  The board the effect builds. The page fixes \<open>numRounds = 16\<close> and \<open>numTeams = 12\<close>
  and reads nothing of the draft: its board is \<open>draftBoard\<close>. The loops are written
  with the two constants as arguments so that lemmas about them can be proved by
  induction.
\<close>

definition draftBoardWith :: "nat \<Rightarrow> nat \<Rightarrow> boardPick list" where
  "draftBoardWith nRounds nTeams = roundLoop nRounds nTeams 1 []"

definition draftBoard :: "boardPick list" where
  "draftBoard = draftBoardWith 16 12"

text \<open>
  \<open>draftBoard.find(pick => pick.pick === currentPick)?.teamIndex\<close>, which is
  \<open>undefined\<close> when no entry has that pick number.
\<close>

definition teamIndexAt :: "boardPick list \<Rightarrow> int \<Rightarrow> int option" where
  "teamIndexAt board current =
     map_option teamIndex (find (\<lambda>pick. bp_pick pick = current) board)"

text \<open>
  The team number the page shows as being on the clock,
  \<open>(draftBoard.find(...)?.teamIndex || 0) + 1\<close>, and whether it is the turn of the team
  with index \<open>userTeamIndex\<close>.
\<close>

definition teamOnClock :: "boardPick list \<Rightarrow> int \<Rightarrow> int" where
  "teamOnClock board current =
     (case teamIndexAt board current of None \<Rightarrow> 0 | Some i \<Rightarrow> i) + 1"

definition isUserTurn :: "boardPick list \<Rightarrow> int \<Rightarrow> int \<Rightarrow> bool" where
  "isUserTurn board current userTeamIndex = (teamIndexAt board current = Some userTeamIndex)"

text \<open>The seats of one round, in board order.\<close>

definition roundSeats :: "boardPick list \<Rightarrow> nat \<Rightarrow> int list" where
  "roundSeats board rnd =
     map (\<lambda>pick. teamIndex pick + 1) (filter (\<lambda>pick. bp_round pick = int rnd) board)"

text \<open>Round and pick within the round of an overall pick: \<open>ceil(p / numTeams)\<close> and the rest.\<close>

definition roundOfPick :: "nat \<Rightarrow> nat \<Rightarrow> nat" where
  "roundOfPick nTeams p = (p + nTeams - 1) div nTeams"

definition pickInRoundOf :: "nat \<Rightarrow> nat \<Rightarrow> nat" where
  "pickInRoundOf nTeams p = p - (roundOfPick nTeams p - 1) * nTeams"

text \<open>A ten-team snake draft, as the setup form creates it (4 to 20 teams).\<close>

definition tenTeamDraft :: draft where
  "tenTeamDraft =
     \<lparr>draft_id = ''00000000-0000-0000-0000-0000000000da'', userId = ''u1'', draftType = snake,
      numTeams = 10, draftPosition = 1, rosterSize = 13, currentRound = Some 1,
      currentPick = Some 1, status = st_setup\<rparr>"

section \<open>Picks route (app/api/drafts/[id]/picks): make a pick, undo the last pick\<close>

text \<open>The three tables the route reads and writes, rows in table order.\<close>

record database =
  drafts :: "draft list"
  players :: "player list"
  draftPicks :: "draftPick list"

text \<open>
  The route's check of the path parameter,
  \<open>/^[0-9a-f]{8}-[0-9a-f]{4}-[0-9a-f]{4}-[0-9a-f]{4}-[0-9a-f]{12}$/i\<close>:
  each character is classed as a hyphen (0), a hexadecimal digit (1) or anything else (2),
  and the classes must spell the pattern.
\<close>

definition charClass :: "char \<Rightarrow> nat" where
  "charClass c =
     (if c = CHR ''-'' then 0
      else if c \<in> set ''0123456789abcdefABCDEF'' then 1
      else 2)"

definition uuidShape :: "nat list" where
  "uuidShape =
     replicate 8 1 @ [0] @ replicate 4 1 @ [0] @ replicate 4 1 @ [0] @ replicate 4 1 @ [0]
     @ replicate 12 1"

definition isUuid :: "string \<Rightarrow> bool" where
  "isUuid s = (map charClass s = uuidShape)"

text \<open>
  A uuid column compares by value: Postgres reads the text of a request parameter
  case-insensitively and stores and prints the lower-case form.
\<close>

definition uuidOf :: "string \<Rightarrow> string" where
  "uuidOf s = toLowerCase s"

text \<open>An \<open>integer\<close> column holds 32-bit values; writing anything else is a database error.\<close>

definition pgInteger :: "int \<Rightarrow> bool" where
  "pgInteger x = (- 2147483648 \<le> x \<and> x \<le> 2147483647)"

text \<open>
  The JSON body of a pick request. \<open>MalformedJson\<close>: \<open>request.json()\<close> throws.
  \<open>IllTyped\<close>: a body that \<open>makePickSchema\<close> rejects for its shape (a missing or wrongly
  typed field, a number that is not an integer, a \<open>playerId\<close> that is not a UUID).
  \<open>Body\<close>: a body of the right shape, whose numbers the schema still has to range-check;
  \<open>isUserPick\<close> may be absent.
\<close>

record pickFields =
  f_playerId :: string
  f_teamNumber :: int
  f_round :: int
  f_pickNumber :: int
  f_pickInRound :: int
  f_isUserPick :: "bool option"

datatype requestBody = MalformedJson | IllTyped | Body pickFields

text \<open>What \<open>makePickSchema.safeParse\<close> returns on success.\<close>

record pickData =
  playerId :: string
  teamNumber :: int
  pickRound :: int
  pickNumber :: int
  pickInRound :: int
  isUserPick :: bool

definition makePickSchema :: "pickFields \<Rightarrow> pickData option" where
  "makePickSchema f =
     (if 1 \<le> f_teamNumber f \<and> f_teamNumber f \<le> 20 \<and> 1 \<le> f_round f
         \<and> 1 \<le> f_pickNumber f \<and> 1 \<le> f_pickInRound f
      then Some \<lparr>playerId = f_playerId f, teamNumber = f_teamNumber f, pickRound = f_round f,
                 pickNumber = f_pickNumber f, pickInRound = f_pickInRound f,
                 isUserPick = (case f_isUserPick f of None \<Rightarrow> False | Some b \<Rightarrow> b)\<rparr>
      else None)"

text \<open>
  A request: the user id of the session (none when there is no session), the \<open>id\<close> path
  parameter and, for a pick, the body.
\<close>

record request =
  sessionUserId :: "string option"
  draftId :: string
  body :: requestBody

text \<open>The responses of the two handlers, with their status codes.\<close>

datatype response =
    Unauthorized
  | InvalidDraftId
  | DraftNotFound
  | DraftCompleted
  | InvalidRequest
  | PlayerNotFound
  | PlayerAlreadyDrafted
  | Created draftPick
  | FailedToMakePick
  | NoPicksToUndo
  | ForbiddenUndo
  | Undone string
  | FailedToUndo

fun statusCode :: "response \<Rightarrow> nat" where
  "statusCode Unauthorized = 401"
| "statusCode InvalidDraftId = 400"
| "statusCode DraftNotFound = 404"
| "statusCode DraftCompleted = 400"
| "statusCode InvalidRequest = 400"
| "statusCode PlayerNotFound = 404"
| "statusCode PlayerAlreadyDrafted = 400"
| "statusCode (Created pick) = 201"
| "statusCode FailedToMakePick = 500"
| "statusCode NoPicksToUndo = 400"
| "statusCode ForbiddenUndo = 403"
| "statusCode (Undone pickId) = 200"
| "statusCode FailedToUndo = 500"

text \<open>\<open>!session?.user?.id\<close>: no session, or an empty id.\<close>

definition sessionUser :: "request \<Rightarrow> string option" where
  "sessionUser req =
     (case sessionUserId req of None \<Rightarrow> None | Some u \<Rightarrow> if u = [] then None else Some u)"

text \<open>The ownership query: the first draft with this id and this owner.\<close>

definition ownedDraft :: "database \<Rightarrow> string \<Rightarrow> string \<Rightarrow> draft option" where
  "ownedDraft db did uid =
     find (\<lambda>d. draft_id d = uuidOf did \<and> userId d = uid) (drafts db)"

text \<open>
  The first half of \<open>POST\<close>, up to the log line before the insert: five reads and their
  early returns. \<open>Inl\<close> is the response returned early; \<open>Inr\<close> carries the draft row, the
  player row and the parsed body on to the writes.
\<close>

definition POST_checks :: "database \<Rightarrow> request \<Rightarrow> response + (draft \<times> player \<times> pickData)" where
  "POST_checks db req =
     (case sessionUser req of
        None \<Rightarrow> Inl Unauthorized
      | Some uid \<Rightarrow>
          if \<not> isUuid (draftId req) then Inl InvalidDraftId
          else (case ownedDraft db (draftId req) uid of
             None \<Rightarrow> Inl DraftNotFound
           | Some draft \<Rightarrow>
               if status draft = st_completed then Inl DraftCompleted
               else (case body req of
                  MalformedJson \<Rightarrow> Inl FailedToMakePick
                | IllTyped \<Rightarrow> Inl InvalidRequest
                | Body raw \<Rightarrow>
                    (case makePickSchema raw of
                       None \<Rightarrow> Inl InvalidRequest
                     | Some pick \<Rightarrow>
                         (case find (\<lambda>p. player_id p = uuidOf (playerId pick)) (players db) of
                            None \<Rightarrow> Inl PlayerNotFound
                          | Some player \<Rightarrow>
                              (case find (\<lambda>k. pick_draftId k = uuidOf (draftId req)
                                              \<and> pick_playerId k = uuidOf (playerId pick))
                                      (draftPicks db) of
                                 Some existingPick \<Rightarrow> Inl PlayerAlreadyDrafted
                               | None \<Rightarrow> Inr (draft, player, pick)))))))"

text \<open>The row the insert writes; \<open>newId\<close> is the primary key the database generates.\<close>

definition newPick :: "string \<Rightarrow> string \<Rightarrow> pickData \<Rightarrow> draftPick" where
  "newPick newId did pick =
     \<lparr>pick_id = newId,
      pick_draftId = uuidOf did,
      pick_playerId = uuidOf (playerId pick),
      pick_teamNumber = teamNumber pick,
      pick_round = pickRound pick,
      pick_pickNumber = pickNumber pick,
      pick_pickInRound = pickInRound pick,
      pick_isUserPick = Some (isUserPick pick)\<rparr>"

text \<open>\<open>db.update(drafts).set(...).where(eq(drafts.id, draftId))\<close>.\<close>

definition updateDraft :: "string \<Rightarrow> (draft \<Rightarrow> draft) \<Rightarrow> database \<Rightarrow> database" where
  "updateDraft did change db =
     db\<lparr>drafts := map (\<lambda>d. if draft_id d = uuidOf did then change d else d) (drafts db)\<rparr>"

text \<open>
  The second half of \<open>POST\<close>: the insert, the update of the draft and the completion
  update, three separate statements with no transaction around them. The insert fails on
  a duplicate primary key or a number outside the integer range, the first update on a
  \<open>currentPick\<close> outside it; a failure lands in the \<open>catch\<close> (500) and keeps what was
  written before it.
\<close>

definition POST_writes ::
  "database \<Rightarrow> string \<Rightarrow> string \<Rightarrow> (draft \<times> player \<times> pickData) \<Rightarrow> database \<times> response" where
  "POST_writes db newId did checked =
     (case checked of (draft, player, pick) \<Rightarrow>
        if newId \<in> pick_id ` set (draftPicks db)
           \<or> \<not> (pgInteger (pickRound pick) \<and> pgInteger (pickNumber pick)
                \<and> pgInteger (pickInRound pick))
        then (db, FailedToMakePick)
        else
          (let inserted = db\<lparr>draftPicks := draftPicks db @ [newPick newId did pick]\<rparr>
           in if \<not> pgInteger (pickNumber pick + 1) then (inserted, FailedToMakePick)
              else
                (let updated =
                       updateDraft did
                         (\<lambda>d. d\<lparr>status := st_in_progress,
                                 currentRound := Some (pickRound pick),
                                 currentPick := Some (pickNumber pick + 1)\<rparr>) inserted;
                     totalPicks = numTeams draft * rosterSize draft
                 in (if pickNumber pick \<ge> totalPicks
                     then updateDraft did (\<lambda>d. d\<lparr>status := st_completed\<rparr>) updated
                     else updated,
                     Created (newPick newId did pick)))))"

text \<open>\<open>POST /api/drafts/[id]/picks\<close>: the database after the request, and the response.\<close>

definition POST :: "database \<Rightarrow> string \<Rightarrow> request \<Rightarrow> database \<times> response" where
  "POST db newId req =
     (case POST_checks db req of
        Inl early \<Rightarrow> (db, early)
      | Inr checked \<Rightarrow> POST_writes db newId (draftId req) checked)"

text \<open>The picks of one draft: \<open>.where(eq(draftPicks.draftId, draftId))\<close>.\<close>

definition picksOf :: "database \<Rightarrow> string \<Rightarrow> draftPick list" where
  "picksOf db did = filter (\<lambda>k. pick_draftId k = uuidOf did) (draftPicks db)"

text \<open>
  \<open>orderBy(desc(draftPicks.pickNumber)).limit(1)\<close> over the picks of the draft: a pick
  with the highest pick number. Between picks with the same number SQL leaves the choice
  open; the model takes the first in table order.
\<close>

definition lastPickOf :: "database \<Rightarrow> string \<Rightarrow> draftPick option" where
  "lastPickOf db did =
     (case sort_key (\<lambda>k. - pick_pickNumber k) (picksOf db did) of
        [] \<Rightarrow> None
      | lastPick # others \<Rightarrow> Some lastPick)"

text \<open>\<open>DELETE /api/drafts/[id]/picks\<close>.\<close>

definition DELETE :: "database \<Rightarrow> request \<Rightarrow> database \<times> response" where
  "DELETE db req =
     (case sessionUser req of
        None \<Rightarrow> (db, Unauthorized)
      | Some uid \<Rightarrow>
          if \<not> isUuid (draftId req) then (db, InvalidDraftId)
          else (case ownedDraft db (draftId req) uid of
             None \<Rightarrow> (db, DraftNotFound)
           | Some draft \<Rightarrow>
               (case lastPickOf db (draftId req) of
                  None \<Rightarrow> (db, NoPicksToUndo)
                | Some lastPick \<Rightarrow>
                    if pick_isUserPick lastPick \<noteq> Some True then (db, ForbiddenUndo)
                    else
                      (let deleted =
                             db\<lparr>draftPicks :=
                                  filter (\<lambda>k. pick_id k \<noteq> pick_id lastPick) (draftPicks db)\<rparr>;
                           updated =
                             updateDraft (draftId req)
                               (\<lambda>d. d\<lparr>status := (if pick_pickNumber lastPick = 1 then st_setup
                                                   else st_in_progress),
                                       currentRound := Some (pick_round lastPick),
                                       currentPick := Some (pick_pickNumber lastPick)\<rparr>) deleted
                       in (updated, Undone (pick_id lastPick))))))"

text \<open>The draft row with a given id.\<close>

definition getDraft :: "database \<Rightarrow> string \<Rightarrow> draft option" where
  "getDraft db did = find (\<lambda>d. draft_id d = uuidOf did) (drafts db)"

text \<open>
  Requests served one after the other: each handler runs to completion on the database the
  previous one left, and the responses are collected in order. A pick request comes with
  the primary key the database generates for its row.
\<close>

datatype operation = MakePick string request | UndoLastPick request

fun perform :: "database \<Rightarrow> operation \<Rightarrow> database \<times> response" where
  "perform db (MakePick newId req) = POST db newId req"
| "perform db (UndoLastPick req) = DELETE db req"

fun serve :: "database \<Rightarrow> operation list \<Rightarrow> database \<times> response list" where
  "serve db [] = (db, [])"
| "serve db (op # ops) =
     (case perform db op of (db1, r) \<Rightarrow>
        (case serve db1 ops of (db2, rs) \<Rightarrow> (db2, r # rs)))"

section \<open>Sample data for the picks route\<close>

definition draftD1 :: string where
  "draftD1 = ''00000000-0000-0000-0000-0000000000d1''"

definition playerUuid :: "nat \<Rightarrow> string" where
  "playerUuid n = ''00000000-0000-0000-0000-00000000000'' @ showNat n"

definition pickUuid :: "nat \<Rightarrow> string" where
  "pickUuid n = ''11111111-0000-0000-0000-00000000000'' @ showNat n"

text \<open>A four-team snake draft of user \<open>u1\<close>, who sits at seat 4; nothing picked yet.\<close>

definition fourTeamDraft :: draft where
  "fourTeamDraft =
     \<lparr>draft_id = draftD1, userId = ''u1'', draftType = snake, numTeams = 4, draftPosition = 4,
      rosterSize = 5, currentRound = Some 1, currentPick = Some 1, status = st_setup\<rparr>"

definition freshDb :: database where
  "freshDb =
     \<lparr>drafts = [fourTeamDraft],
      players = map (\<lambda>n. mkPlayer (playerUuid n) ''Player'' (Some ''PG'') (Some (int n))) [1, 2, 3, 4, 5, 6],
      draftPicks = []\<rparr>"

text \<open>A pick request of user \<open>u1\<close> for player \<open>n\<close>, and the user's undo request.\<close>

definition pickRequest :: "nat \<Rightarrow> int \<Rightarrow> int \<Rightarrow> int \<Rightarrow> int \<Rightarrow> bool \<Rightarrow> request" where
  "pickRequest n seatNo rnd pickNo inRound mine =
     \<lparr>sessionUserId = Some ''u1'', draftId = draftD1,
      body = Body \<lparr>f_playerId = playerUuid n, f_teamNumber = seatNo, f_round = rnd,
                   f_pickNumber = pickNo, f_pickInRound = inRound, f_isUserPick = Some mine\<rparr>\<rparr>"

definition undoRequest :: request where
  "undoRequest = \<lparr>sessionUserId = Some ''u1'', draftId = draftD1, body = IllTyped\<rparr>"

text \<open>The database after a run of pick requests, each given the id its row gets.\<close>

fun afterPicks :: "database \<Rightarrow> (string \<times> request) list \<Rightarrow> database" where
  "afterPicks db [] = db"
| "afterPicks db ((newId, req) # rest) = afterPicks (fst (POST db newId req)) rest"

text \<open>The body of the first pick, made by seat 1.\<close>

definition firstPickFields :: pickFields where
  "firstPickFields =
     \<lparr>f_playerId = playerUuid 1, f_teamNumber = 1, f_round = 1, f_pickNumber = 1,
      f_pickInRound = 1, f_isUserPick = Some False\<rparr>"

text \<open>
  The database after the four picks of round 1, each made in turn; seat 4 is the user.
  The draft stands at round 1, pick 5.
\<close>

definition roundOnePicks :: "(string \<times> request) list" where
  "roundOnePicks =
     [(pickUuid 1, pickRequest 1 1 1 1 1 False),
      (pickUuid 2, pickRequest 2 2 1 2 2 False),
      (pickUuid 3, pickRequest 3 3 1 3 3 False),
      (pickUuid 4, pickRequest 4 4 1 4 4 True)]"

definition turnPick :: "nat \<Rightarrow> int \<Rightarrow> bool \<Rightarrow> draftPick" where
  "turnPick n seatNo mine =
     \<lparr>pick_id = pickUuid n, pick_draftId = draftD1, pick_playerId = playerUuid n,
      pick_teamNumber = seatNo, pick_round = 1, pick_pickNumber = seatNo,
      pick_pickInRound = seatNo, pick_isUserPick = Some mine\<rparr>"

definition roundOneDb :: database where
  "roundOneDb =
     \<lparr>drafts = [fourTeamDraft\<lparr>currentRound := Some 1, currentPick := Some 5,
                                 status := st_in_progress\<rparr>],
      players = players freshDb,
      draftPicks = [turnPick 1 1 False, turnPick 2 2 False, turnPick 3 3 False,
                    turnPick 4 4 True]\<rparr>"

text \<open>What the checks of a request for player 1 at pick 1 hand on to the writes.\<close>

definition checkedFirstPick :: "draft \<times> player \<times> pickData" where
  "checkedFirstPick =
     (fourTeamDraft,
      mkPlayer (playerUuid 1) ''Player'' (Some ''PG'') (Some 1),
      \<lparr>playerId = playerUuid 1, teamNumber = 1, pickRound = 1, pickNumber = 1,
       pickInRound = 1, isUserPick = False\<rparr>)"


section \<open>Roster analyzer: properties\<close>

lemma countPositions_countOr0:
  "countOr0 (countPositions roster m) pos = countOr0 m pos + playersAt roster pos"
  by (induction roster arbitrary: m) (auto simp: playersAt_def countOr0_def Let_def)

lemma countPositions_empty:
  "countOr0 (countPositions roster Map.empty) pos = playersAt roster pos"
  by (simp add: countPositions_countOr0) (simp add: countOr0_def)

lemma analyzeEntries_fst:
  "fst (analyzeEntries table pc (s, n)) =
     s @ map (\<lambda>(pos, ideal). strengthEntry pos (countOr0 pc pos))
           (filter (\<lambda>(pos, ideal). ideal \<le> int (countOr0 pc pos)) table)"
  by (induction table pc "(s, n)" arbitrary: s n rule: analyzeEntries.induct)
     (auto simp: Let_def)

lemma analyzeEntries_snd:
  "snd (analyzeEntries table pc (s, n)) =
     n @ map (\<lambda>(pos, ideal). needEntry pos (countOr0 pc pos) ideal)
           (filter (\<lambda>(pos, ideal). int (countOr0 pc pos) < ideal - 1) table)"
  by (induction table pc "(s, n)" arbitrary: s n rule: analyzeEntries.induct)
     (auto simp: Let_def)

lemma strengths_analyzeRosterWith:
  "strengths (analyzeRosterWith table roster) =
     map (\<lambda>(pos, ideal). strengthEntry pos (playersAt roster pos))
       (filter (\<lambda>(pos, ideal). ideal \<le> int (playersAt roster pos)) table)"
  by (simp add: analyzeRosterWith_def Let_def case_prod_beta analyzeEntries_fst
      countPositions_empty)

lemma needs_analyzeRosterWith:
  "needs (analyzeRosterWith table roster) =
     (let short = filter (\<lambda>(pos, ideal). int (playersAt roster pos) < ideal - 1) table
      in if short = [] then [''Roster is well-balanced'']
         else map (\<lambda>(pos, ideal). needEntry pos (playersAt roster pos) ideal) short)"
  by (simp add: analyzeRosterWith_def Let_def case_prod_beta analyzeEntries_snd
      countPositions_empty)

lemma playersAt_filter_core:
  "pos \<in> corePositions \<Longrightarrow>
     playersAt (filter (\<lambda>p. primaryPosition p \<in> corePositions) roster) pos = playersAt roster pos"
proof -
  assume core: "pos \<in> corePositions"
  have "(\<lambda>p. primaryPosition p \<in> corePositions \<and> primaryPosition p = pos) =
        (\<lambda>p. primaryPosition p = pos)"
    using core by auto
  then show ?thesis
    by (simp add: playersAt_def conj_commute)
qed

lemma playersAt_none:
  "\<forall>p \<in> set roster. primaryPosition p \<notin> corePositions \<Longrightarrow> pos \<in> corePositions \<Longrightarrow>
     playersAt roster pos = 0"
  by (auto simp: playersAt_def filter_empty_conv)

lemma showNat_digit: "n < 10 \<Longrightarrow> showNat n = [''0123456789'' ! n]"
  by (simp add: showNat.simps)











lemma analyzeRoster_core_only:
  "analyzeRoster (filter (\<lambda>p. primaryPosition p \<in> corePositions) roster) = analyzeRoster roster"
proof (rule rosterAnalysis.equality)
  let ?core = "filter (\<lambda>p. primaryPosition p \<in> corePositions) roster"
  have eq: "playersAt ?core pos = playersAt roster pos" if "pos \<in> corePositions" for pos
    using that by (rule playersAt_filter_core)
  have five: "playersAt ?core ''PG'' = playersAt roster ''PG''"
    "playersAt ?core ''SG'' = playersAt roster ''SG''"
    "playersAt ?core ''SF'' = playersAt roster ''SF''"
    "playersAt ?core ''PF'' = playersAt roster ''PF''"
    "playersAt ?core ''C'' = playersAt roster ''C''"
    by (rule eq, simp add: corePositions_def)+
  show "strengths (analyzeRoster ?core) = strengths (analyzeRoster roster)"
    unfolding analyzeRoster_def strengths_analyzeRosterWith IDEAL_ROSTER_COMPOSITION_def
    by (simp add: five)
  show "needs (analyzeRoster ?core) = needs (analyzeRoster roster)"
    unfolding analyzeRoster_def needs_analyzeRosterWith IDEAL_ROSTER_COMPOSITION_def
    by (simp add: five)
  show "rosterAnalysis.more (analyzeRoster ?core) = rosterAnalysis.more (analyzeRoster roster)"
    by simp
qed

lemma analyzeRoster_no_core:
  assumes "\<forall>p \<in> set roster. primaryPosition p \<notin> corePositions"
  shows "strengths (analyzeRoster roster) = []"
    and "needs (analyzeRoster roster) =
      [''PG (have 0, need 2)'', ''SG (have 0, need 2)'', ''SF (have 0, need 2)'',
       ''PF (have 0, need 2)'', ''C (have 0, need 2)'']"
proof -
  have zero: "playersAt roster ''PG'' = 0" "playersAt roster ''SG'' = 0"
    "playersAt roster ''SF'' = 0" "playersAt roster ''PF'' = 0" "playersAt roster ''C'' = 0"
    using assms by (simp_all add: playersAt_none corePositions_def)
  show "strengths (analyzeRoster roster) = []"
    unfolding analyzeRoster_def strengths_analyzeRosterWith IDEAL_ROSTER_COMPOSITION_def
    by (simp add: zero)
  show "needs (analyzeRoster roster) =
      [''PG (have 0, need 2)'', ''SG (have 0, need 2)'', ''SF (have 0, need 2)'',
       ''PF (have 0, need 2)'', ''C (have 0, need 2)'']"
    unfolding analyzeRoster_def needs_analyzeRosterWith IDEAL_ROSTER_COMPOSITION_def
    by (simp add: zero needEntry_def showInt_def showNat_digit)
qed

text \<open>
  C10, as stated, fails: a roster holding one quarterback has no player at any of the five
  table positions, yet its needs are the five \<open>have 0, need 2\<close> entries and not the
  sentinel, because a count of 0 is below ideal minus one.
\<close>

theorem analyzeRoster_nfl_counterexample:
  "primaryPosition (mkPlayer ''p1'' ''Josh Allen'' (Some ''QB'') (Some 3)) \<notin> corePositions
   \<and> needs (analyzeRoster [mkPlayer ''p1'' ''Josh Allen'' (Some ''QB'') (Some 3)])
       \<noteq> [''Roster is well-balanced'']"
proof -
  let ?qb = "mkPlayer ''p1'' ''Josh Allen'' (Some ''QB'') (Some 3)"
  have pos: "primaryPosition ?qb \<notin> corePositions"
    by (simp add: primaryPosition_def mkPlayer_def corePositions_def)
  then have "\<forall>p \<in> set [?qb]. primaryPosition p \<notin> corePositions"
    by simp
  then have "needs (analyzeRoster [?qb]) =
      [''PG (have 0, need 2)'', ''SG (have 0, need 2)'', ''SF (have 0, need 2)'',
       ''PF (have 0, need 2)'', ''C (have 0, need 2)'']"
    by (rule analyzeRoster_no_core)
  with pos show ?thesis by simp
qed

text \<open>
  C10, amended. The table holds exactly the positions PG, SG, SF, PF, C, each with ideal
  count 2; players at any other primary position have no influence on the analysis
  (dropping them from the roster leaves the result unchanged); and for every roster with
  no player at those five positions the strengths are empty and the needs are the five
  entries \<open>PG (have 0, need 2)\<close>, ..., \<open>C (have 0, need 2)\<close>: every table position is
  reported as a need, and the sentinel does not appear.
\<close>

theorem analyzeRoster_fixed_table:
  "map fst IDEAL_ROSTER_COMPOSITION = [''PG'', ''SG'', ''SF'', ''PF'', ''C'']
   \<and> snd ` set IDEAL_ROSTER_COMPOSITION = {2}
   \<and> analyzeRoster (filter (\<lambda>p. primaryPosition p \<in> corePositions) roster) = analyzeRoster roster
   \<and> ((\<forall>p \<in> set roster. primaryPosition p \<notin> corePositions) \<longrightarrow>
        strengths (analyzeRoster roster) = []
        \<and> needs (analyzeRoster roster) =
            [''PG (have 0, need 2)'', ''SG (have 0, need 2)'', ''SF (have 0, need 2)'',
             ''PF (have 0, need 2)'', ''C (have 0, need 2)''])"
proof -
  have "map fst IDEAL_ROSTER_COMPOSITION = [''PG'', ''SG'', ''SF'', ''PF'', ''C'']"
    by (simp add: IDEAL_ROSTER_COMPOSITION_def)
  moreover have "snd ` set IDEAL_ROSTER_COMPOSITION = {2}"
    by (simp add: IDEAL_ROSTER_COMPOSITION_def)
  ultimately show ?thesis
    using analyzeRoster_core_only [of roster] analyzeRoster_no_core [of roster]
    by blast
qed

theorem analyzeRoster_fixed_table_witness:
  "primaryPosition (mkPlayer ''p2'' ''Derrick Henry'' (Some ''RB'') (Some 5)) \<notin> corePositions
   \<and> strengths (analyzeRoster [mkPlayer ''p2'' ''Derrick Henry'' (Some ''RB'') (Some 5)]) = []
   \<and> needs (analyzeRoster [mkPlayer ''p2'' ''Derrick Henry'' (Some ''RB'') (Some 5)]) =
       [''PG (have 0, need 2)'', ''SG (have 0, need 2)'', ''SF (have 0, need 2)'',
        ''PF (have 0, need 2)'', ''C (have 0, need 2)'']"
proof -
  have h: "\<forall>p \<in> set [mkPlayer ''p2'' ''Derrick Henry'' (Some ''RB'') (Some 5)].
      primaryPosition p \<notin> corePositions"
    by (simp add: primaryPosition_def mkPlayer_def corePositions_def)
  with analyzeRoster_fixed_table [of "[mkPlayer ''p2'' ''Derrick Henry'' (Some ''RB'') (Some 5)]"]
  show ?thesis by simp
qed
section \<open>Recommendation engine: properties\<close>

lemma sorted_take_drop_le:
  assumes "sorted (map f xs)" and "p \<in> set (take n xs)" and "q \<in> set (drop n xs)"
  shows "f p \<le> f q"
proof -
  have "sorted (map f (take n xs) @ map f (drop n xs))"
    using assms(1) by (simp flip: map_append)
  then have "\<forall>x \<in> set (map f (take n xs)). \<forall>y \<in> set (map f (drop n xs)). x \<le> y"
    by (simp add: sorted_append)
  with assms(2,3) show ?thesis by auto
qed

lemma mset_rest_of_take:
  "mset (ranked pool) - mset (take n (sort_key f (ranked pool)))
     = mset (drop n (sort_key f (ranked pool)))"
proof -
  have "mset (ranked pool) = mset (sort_key f (ranked pool))"
    by simp
  also have "\<dots> = mset (take n (sort_key f (ranked pool)))
                  + mset (drop n (sort_key f (ranked pool)))"
    by (simp flip: mset_append)
  finally show ?thesis by simp
qed

lemma topByAdp_lowest: "lowestByKey n pool (topByAdp n pool)"
proof -
  let ?s = "sort_key adpKey (ranked pool)"
  have top: "topByAdp n pool = take n ?s"
    by (simp add: topByAdp_def ranked_def)
  have len: "length (take n ?s) = min n (length (ranked pool))"
    by (simp add: min.commute)
  have "mset (take n ?s) \<subseteq># mset (take n ?s) + mset (drop n ?s)"
    by simp
  then have sub: "mset (take n ?s) \<subseteq># mset (ranked pool)"
    by (simp flip: mset_append)
  have srt: "sorted (map adpKey ?s)"
    by (rule sorted_sort_key)
  then have srt_take: "sorted (map adpKey (take n ?s))"
    by (simp add: take_map [symmetric])
  have least: "\<forall>p \<in> set (take n ?s). \<forall>q \<in># mset (ranked pool) - mset (take n ?s).
      adpKey p \<le> adpKey q"
    using sorted_take_drop_le [OF srt] by (auto simp: mset_rest_of_take)
  show ?thesis
    unfolding lowestByKey_def top using len sub srt_take least by blast
qed

lemma topByAdp_ranked: "p \<in> set (topByAdp n pool) \<Longrightarrow> p \<in> set pool \<and> adp p \<noteq> None"
  by (auto simp: topByAdp_def dest!: in_set_takeD)

lemma adpKey_le_adpLe:
  assumes "adp p \<noteq> None" "adp q \<noteq> None" "adp p \<noteq> Some 0" "adp q \<noteq> Some 0"
    and "adpKey p \<le> adpKey q"
  shows "adpLe p q"
  using assms by (auto simp: adpKey_def adpLe_def split: option.splits if_splits)

lemma topByAdp_ascending:
  assumes "\<forall>p \<in> set pool. adp p \<noteq> Some 0"
  shows "sorted_wrt adpLe (topByAdp n pool)"
proof -
  have "sorted_wrt (\<lambda>p q. adpKey p \<le> adpKey q) (topByAdp n pool)"
    using topByAdp_lowest [of n pool] by (simp add: lowestByKey_def sorted_map)
  then show ?thesis
  proof (rule sorted_wrt_mono_rel [rotated])
    fix p q
    assume "p \<in> set (topByAdp n pool)" "q \<in> set (topByAdp n pool)"
      and "adpKey p \<le> adpKey q"
    then show "adpLe p q"
      using assms topByAdp_ranked by (intro adpKey_le_adpLe) blast+
  qed
qed

text \<open>
  C7, as stated, fails: with one unranked (null-ADP) and one ranked player available, the
  candidate list holds the ranked player only. The claim's list would hold both, the
  unranked one last.
\<close>

theorem topAvailable_null_adp_counterexample:
  "topAvailable (sampleContext
      [mkPlayer ''n1'' ''No Rank'' (Some ''PG'') None,
       mkPlayer ''a1'' ''Player One'' (Some ''PG'') (Some 1)])
     = [mkPlayer ''a1'' ''Player One'' (Some ''PG'') (Some 1)]
   \<and> mkPlayer ''n1'' ''No Rank'' (Some ''PG'') None
        \<notin> set (topAvailable (sampleContext
             [mkPlayer ''n1'' ''No Rank'' (Some ''PG'') None,
              mkPlayer ''a1'' ''Player One'' (Some ''PG'') (Some 1)]))"
  by (simp add: topAvailable_def topByAdp_def sampleContext_def mkPlayer_def)

text \<open>
  C7, amended. The candidate list embedded in the prompt is drawn from the available
  players with a non-null ADP only (null-ADP players are excluded, not sorted last): it
  holds 30 of them, or all when there are fewer, in ascending order of the sort key, and
  no ranked player left out has a smaller key than a candidate. Where no available player
  has ADP 0 the sort key is the ADP, and the list is in ascending order of ADP.
\<close>

theorem topAvailable_candidates:
  "lowestByKey 30 (availablePlayers ctx) (topAvailable ctx)
   \<and> (\<forall>p \<in> set (topAvailable ctx). p \<in> set (availablePlayers ctx) \<and> adp p \<noteq> None)
   \<and> ((\<forall>p \<in> set (availablePlayers ctx). adp p \<noteq> Some 0) \<longrightarrow>
        sorted_wrt adpLe (topAvailable ctx))"
  unfolding topAvailable_def
  using topByAdp_lowest [of 30 "availablePlayers ctx"]
    topByAdp_ranked [of _ 30 "availablePlayers ctx"]
    topByAdp_ascending [of "availablePlayers ctx" 30]
  by blast


theorem topAvailable_candidates_witness:
  "sorted_wrt adpLe (topAvailable (sampleContext sixPlayers))
   \<and> map player_id (topAvailable (sampleContext sixPlayers))
       = [''a1'', ''a2'', ''a3'', ''a4'', ''a5'', ''a6'']"
proof -
  have "\<forall>p \<in> set (availablePlayers (sampleContext sixPlayers)). adp p \<noteq> Some 0"
    by (simp add: sampleContext_def sixPlayers_def mkPlayer_def)
  with topAvailable_candidates [of "sampleContext sixPlayers"]
  have "sorted_wrt adpLe (topAvailable (sampleContext sixPlayers))"
    by blast
  moreover have "map player_id (topAvailable (sampleContext sixPlayers))
       = [''a1'', ''a2'', ''a3'', ''a4'', ''a5'', ''a6'']"
    by code_simp
  ultimately show ?thesis by simp
qed

lemma fallbackEntry_ids:
  "map rec_playerId (map (fallbackEntry ctx) (enumerate k xs)) = map player_id xs"
  by (induction xs arbitrary: k) (simp_all add: fallbackEntry_def)

lemma fallbackEntry_scores:
  "map score (map (fallbackEntry ctx) (enumerate k xs))
     = map (\<lambda>i. 80 - 5 * int i) [k..<k + length xs]"
proof (induction xs arbitrary: k)
  case Nil
  then show ?case by simp
next
  case (Cons x xs)
  have "[k..<k + length (x # xs)] = k # [Suc k..<Suc k + length xs]"
    using upt_conv_Cons [of k "k + length (x # xs)"] by simp
  with Cons [of "Suc k"] show ?case
    by (simp add: fallbackEntry_def)
qed

lemma fallbackEntry_tags:
  "map tags (map (fallbackEntry ctx) (enumerate k xs))
     = map (\<lambda>i. if i = 0 then [''best available''] else [''value pick'']) [k..<k + length xs]"
proof (induction xs arbitrary: k)
  case Nil
  then show ?case by simp
next
  case (Cons x xs)
  have "[k..<k + length (x # xs)] = k # [Suc k..<Suc k + length xs]"
    using upt_conv_Cons [of k "k + length (x # xs)"] by simp
  with Cons [of "Suc k"] show ?case
    by (simp add: fallbackEntry_def)
qed

lemma fallback_scores_decreasing:
  "sorted_wrt (>) (map (\<lambda>i. 80 - 5 * int i) [k..<n])"
  by (simp add: sorted_wrt_map sorted_wrt_iff_nth_less)

lemma getFallbackRecommendations_entries:
  "recommendations (getFallbackRecommendations ctx)
     = map (fallbackEntry ctx) (enumerate 0 (topByAdp 5 (availablePlayers ctx)))"
  by (simp add: getFallbackRecommendations_def topByAdp_def Let_def)

lemma parseAIResponse_zero_usable:
  assumes "zeroUsable parsedJson pool"
  shows "recommendations (parseAIResponse parsedJson pool)
     = map bestAvailableEntry (topByAdp 5 pool)"
proof -
  have five: "length (topByAdp 5 pool) \<le> 5"
    by (simp add: topByAdp_def)
  show ?thesis
    using assms
    by (auto simp: zeroUsable_def parseAIResponse_def Let_def five
        split: option.splits sum.splits)
qed

text \<open>
  C6, as stated, fails: the provider answers with an empty recommendation list (zero usable
  recommendations) while six players with ADP 1 to 6 are available. The five entries
  returned all have score 70 and all carry the tag \<open>best available\<close>; the claim promises
  scores 80, 75, 70, 65, 60 and \<open>value pick\<close> from the second entry on.
\<close>

theorem generateRecommendations_zero_usable_counterexample:
  "zeroUsable (Some emptyAnswer) (availablePlayers (sampleContext sixPlayers))
   \<and> map score (recommendations
         (generateRecommendations (sampleContext sixPlayers) (Generated (Some emptyAnswer))))
       = [70, 70, 70, 70, 70]
   \<and> map tags (recommendations
         (generateRecommendations (sampleContext sixPlayers) (Generated (Some emptyAnswer))))
       = [[''best available''], [''best available''], [''best available''],
          [''best available''], [''best available'']]"
  by code_simp

text \<open>
  C6, amended. When no provider is configured or the provider call fails, the
  recommendations are the 5 lowest-ranked available players by sort key (players with a
  null ADP excluded; fewer than 5 when fewer are ranked), in ascending order, the entry of
  rank \<open>i\<close> (from 0) scored \<open>80 - 5 i\<close>, so strictly decreasing, the first tagged
  \<open>best available\<close> and the others \<open>value pick\<close>. When the provider answers and the answer
  yields zero usable recommendations (it does not parse, or no item resolves to an
  available player), the recommendations are the same players in the same order, each
  scored 70 and each tagged \<open>best available\<close>. Where no available player has ADP 0 the
  sort key is the ADP, and the order is ascending ADP.
\<close>

theorem generateRecommendations_fallback:
  "lowestByKey 5 (availablePlayers ctx) (topByAdp 5 (availablePlayers ctx))
   \<and> ((\<forall>p \<in> set (availablePlayers ctx). adp p \<noteq> Some 0) \<longrightarrow>
        sorted_wrt adpLe (topByAdp 5 (availablePlayers ctx)))
   \<and> (outcome = NoProvider \<or> outcome = GenerateFailed \<longrightarrow>
        map rec_playerId (recommendations (generateRecommendations ctx outcome))
          = map player_id (topByAdp 5 (availablePlayers ctx))
        \<and> map score (recommendations (generateRecommendations ctx outcome))
          = map (\<lambda>i. 80 - 5 * int i) [0..<length (topByAdp 5 (availablePlayers ctx))]
        \<and> sorted_wrt (>) (map score (recommendations (generateRecommendations ctx outcome)))
        \<and> map tags (recommendations (generateRecommendations ctx outcome))
          = map (\<lambda>i. if i = 0 then [''best available''] else [''value pick''])
              [0..<length (topByAdp 5 (availablePlayers ctx))])
   \<and> (outcome = Generated parsedJson \<and> zeroUsable parsedJson (availablePlayers ctx) \<longrightarrow>
        map rec_playerId (recommendations (generateRecommendations ctx outcome))
          = map player_id (topByAdp 5 (availablePlayers ctx))
        \<and> (\<forall>r \<in> set (recommendations (generateRecommendations ctx outcome)).
              score r = 70 \<and> tags r = [''best available'']))"
proof -
  let ?top = "topByAdp 5 (availablePlayers ctx)"
  have lowest: "lowestByKey 5 (availablePlayers ctx) ?top"
    by (rule topByAdp_lowest)
  have asc: "(\<forall>p \<in> set (availablePlayers ctx). adp p \<noteq> Some 0) \<longrightarrow> sorted_wrt adpLe ?top"
    using topByAdp_ascending by blast
  have fb: "recommendations (generateRecommendations ctx outcome)
      = map (fallbackEntry ctx) (enumerate 0 ?top)"
    if "outcome = NoProvider \<or> outcome = GenerateFailed"
    using that by (auto simp: generateRecommendations_def getFallbackRecommendations_entries)
  have no_provider: "outcome = NoProvider \<or> outcome = GenerateFailed \<longrightarrow>
        map rec_playerId (recommendations (generateRecommendations ctx outcome))
          = map player_id ?top
        \<and> map score (recommendations (generateRecommendations ctx outcome))
          = map (\<lambda>i. 80 - 5 * int i) [0..<length ?top]
        \<and> sorted_wrt (>) (map score (recommendations (generateRecommendations ctx outcome)))
        \<and> map tags (recommendations (generateRecommendations ctx outcome))
          = map (\<lambda>i. if i = 0 then [''best available''] else [''value pick''])
              [0..<length ?top]"
    using fallbackEntry_ids [of ctx 0 ?top] fallbackEntry_scores [of ctx 0 ?top]
      fallbackEntry_tags [of ctx 0 ?top] fallback_scores_decreasing [of 0 "length ?top"]
    by (simp add: fb)
  have zu: "recommendations (generateRecommendations ctx outcome)
      = map bestAvailableEntry ?top"
    if "outcome = Generated parsedJson" "zeroUsable parsedJson (availablePlayers ctx)"
    using that by (simp add: generateRecommendations_def parseAIResponse_zero_usable)
  have zero: "outcome = Generated parsedJson \<and> zeroUsable parsedJson (availablePlayers ctx) \<longrightarrow>
        map rec_playerId (recommendations (generateRecommendations ctx outcome))
          = map player_id ?top
        \<and> (\<forall>r \<in> set (recommendations (generateRecommendations ctx outcome)).
              score r = 70 \<and> tags r = [''best available''])"
  proof (intro impI, elim conjE)
    assume gen: "outcome = Generated parsedJson"
      and none: "zeroUsable parsedJson (availablePlayers ctx)"
    show "map rec_playerId (recommendations (generateRecommendations ctx outcome))
          = map player_id ?top
        \<and> (\<forall>r \<in> set (recommendations (generateRecommendations ctx outcome)).
              score r = 70 \<and> tags r = [''best available''])"
      unfolding zu [OF gen none] by (auto simp: bestAvailableEntry_def)
  qed
  from lowest asc no_provider zero show ?thesis by blast
qed

theorem generateRecommendations_fallback_witness:
  "map rec_playerId (recommendations (generateRecommendations (sampleContext sixPlayers) NoProvider))
     = [''a1'', ''a2'', ''a3'', ''a4'', ''a5'']
   \<and> map score (recommendations (generateRecommendations (sampleContext sixPlayers) NoProvider))
     = [80, 75, 70, 65, 60]
   \<and> map tags (recommendations (generateRecommendations (sampleContext sixPlayers) NoProvider))
     = [[''best available''], [''value pick''], [''value pick''], [''value pick''], [''value pick'']]
   \<and> map rec_playerId (recommendations
        (generateRecommendations (sampleContext sixPlayers) (Generated None)))
     = [''a1'', ''a2'', ''a3'', ''a4'', ''a5'']
   \<and> sorted_wrt adpLe (topByAdp 5 (availablePlayers (sampleContext sixPlayers)))"
proof -
  have top: "map player_id (topByAdp 5 (availablePlayers (sampleContext sixPlayers)))
      = [''a1'', ''a2'', ''a3'', ''a4'', ''a5'']"
    by code_simp
  then have len: "length (topByAdp 5 (availablePlayers (sampleContext sixPlayers))) = 5"
    using length_map [of player_id "topByAdp 5 (availablePlayers (sampleContext sixPlayers))"]
    by simp
  have upt5: "[0..<5] = [0, 1, 2, 3, 4]"
    by code_simp
  have nozero: "\<forall>p \<in> set (availablePlayers (sampleContext sixPlayers)). adp p \<noteq> Some 0"
    by (simp add: sampleContext_def sixPlayers_def mkPlayer_def)
  have zu: "zeroUsable None (availablePlayers (sampleContext sixPlayers))"
    by (simp add: zeroUsable_def)
  from generateRecommendations_fallback [of "sampleContext sixPlayers" NoProvider None] nozero
  have a: "map rec_playerId (recommendations (generateRecommendations (sampleContext sixPlayers) NoProvider))
     = [''a1'', ''a2'', ''a3'', ''a4'', ''a5'']
   \<and> map score (recommendations (generateRecommendations (sampleContext sixPlayers) NoProvider))
     = [80, 75, 70, 65, 60]
   \<and> map tags (recommendations (generateRecommendations (sampleContext sixPlayers) NoProvider))
     = [[''best available''], [''value pick''], [''value pick''], [''value pick''], [''value pick'']]
   \<and> sorted_wrt adpLe (topByAdp 5 (availablePlayers (sampleContext sixPlayers)))"
    by (simp add: top len upt5)
  from generateRecommendations_fallback [of "sampleContext sixPlayers" "Generated None" None] zu
  have b: "map rec_playerId (recommendations
        (generateRecommendations (sampleContext sixPlayers) (Generated None)))
     = [''a1'', ''a2'', ''a3'', ''a4'', ''a5'']"
    by (simp add: top)
  from a b show ?thesis by simp
qed

section \<open>Draft board: properties\<close>

lemma pickLoop_closed:
  "pickLoop nTeams rnd pick board
     = board @ map (boardEntry nTeams rnd) [pick..<Suc nTeams]"
proof (induction nTeams rnd pick board rule: pickLoop.induct)
  case (1 nTeams rnd pick board)
  show ?case
  proof (cases "pick \<le> nTeams")
    case True
    then have "[pick..<Suc nTeams] = pick # [pick + 1..<Suc nTeams]"
      by (simp add: upt_conv_Cons)
    with True "1.IH" show ?thesis
      by (subst pickLoop.simps) simp
  next
    case False
    then show ?thesis
      by (subst pickLoop.simps) simp
  qed
qed

lemma roundLoop_closed:
  "roundLoop nRounds nTeams rnd board
     = board @ concat (map (\<lambda>r. map (boardEntry nTeams r) [1..<Suc nTeams])
                          [rnd..<Suc nRounds])"
proof (induction nRounds nTeams rnd board rule: roundLoop.induct)
  case (1 nRounds nTeams rnd board)
  show ?case
  proof (cases "rnd \<le> nRounds")
    case True
    then have "[rnd..<Suc nRounds] = rnd # [rnd + 1..<Suc nRounds]"
      by (simp add: upt_conv_Cons)
    with True "1.IH" show ?thesis
      by (subst roundLoop.simps) (simp add: pickLoop_closed)
  next
    case False
    then show ?thesis
      by (subst roundLoop.simps) simp
  qed
qed

lemma draftBoardWith_closed:
  "draftBoardWith nRounds nTeams
     = concat (map (\<lambda>r. map (boardEntry nTeams r) [1..<Suc nTeams]) [1..<Suc nRounds])"
  by (simp add: draftBoardWith_def roundLoop_closed)

lemma roundOfPick_Suc:
  "0 < nTeams \<Longrightarrow> roundOfPick nTeams (Suc m) = Suc (m div nTeams)"
  using div_add_self2 [of nTeams m] by (simp add: roundOfPick_def)

lemma pickInRoundOf_Suc:
  assumes "0 < nTeams"
  shows "pickInRoundOf nTeams (Suc m) = Suc (m mod nTeams)"
proof -
  have "m div nTeams * nTeams \<le> m"
    by simp
  then have "Suc m - m div nTeams * nTeams = Suc (m - m div nTeams * nTeams)"
    by (rule Suc_diff_le)
  also have "m - m div nTeams * nTeams = m mod nTeams"
    by (simp add: minus_div_mult_eq_mod)
  finally show ?thesis
    using assms by (simp add: pickInRoundOf_def roundOfPick_Suc)
qed

lemma bp_pick_boardEntry:
  assumes "0 < nTeams"
  shows "bp_pick (boardEntry nTeams (roundOfPick nTeams (Suc m)) (pickInRoundOf nTeams (Suc m)))
     = int (Suc m)"
proof -
  have "int (m div nTeams * nTeams + m mod nTeams) = int m"
    by simp
  then have "int (m div nTeams) * int nTeams + int (m mod nTeams) = int m"
    by (simp only: of_nat_add of_nat_mult)
  then show ?thesis
    using assms by (simp add: boardEntry_def roundOfPick_Suc pickInRoundOf_Suc)
qed

lemma round_in_range:
  assumes "0 < nTeams" "Suc m \<le> nRounds * nTeams"
  shows "1 \<le> roundOfPick nTeams (Suc m) \<and> roundOfPick nTeams (Suc m) \<le> nRounds"
proof -
  have "m < nRounds * nTeams"
    using assms by simp
  then have "m div nTeams < nRounds"
    using assms by (simp add: less_mult_imp_div_less)
  then show ?thesis
    using assms by (simp add: roundOfPick_Suc)
qed

lemma pick_in_range:
  assumes "0 < nTeams"
  shows "1 \<le> pickInRoundOf nTeams (Suc m) \<and> pickInRoundOf nTeams (Suc m) \<le> nTeams"
  using assms by (simp add: pickInRoundOf_Suc Suc_leI)

lemma boardEntry_in_board:
  assumes "1 \<le> r" "r \<le> nRounds" "1 \<le> k" "k \<le> nTeams"
  shows "boardEntry nTeams r k \<in> set (draftBoardWith nRounds nTeams)"
  using assms
  by (auto simp: draftBoardWith_closed simp del: upt_Suc
      intro!: bexI [of _ r] image_eqI [of _ _ k])

lemma bp_pick_round:
  "map bp_pick (map (boardEntry nTeams (Suc n)) [1..<Suc nTeams])
     = map int [Suc (n * nTeams)..<Suc (Suc n * nTeams)]"
  by (rule nth_equalityI) (simp_all add: boardEntry_def del: upt_Suc)

lemma bp_pick_board:
  "map bp_pick (concat (map (\<lambda>r. map (boardEntry nTeams r) [1..<Suc nTeams]) [1..<Suc nRounds]))
     = map int [1..<Suc (nRounds * nTeams)]"
proof (induction nRounds)
  case 0
  then show ?case by simp
next
  case (Suc n)
  have split: "[1..<Suc (Suc n * nTeams)]
      = [1..<Suc (n * nTeams)] @ [Suc (n * nTeams)..<Suc (Suc n * nTeams)]"
    using upt_add_eq_append [of 1 "Suc (n * nTeams)" nTeams] by (simp add: add.commute)
  have rounds: "[1..<Suc (Suc n)] = [1..<Suc n] @ [Suc n]"
    by simp
  show ?case
    unfolding split rounds map_append concat_append Suc.IH
    using bp_pick_round [of nTeams n] by simp
qed

lemma distinct_bp_pick: "distinct (map bp_pick (draftBoardWith nRounds nTeams))"
  unfolding draftBoardWith_closed bp_pick_board
  by (simp add: distinct_map)

lemma find_by_key:
  "distinct (map f xs) \<Longrightarrow> x \<in> set xs \<Longrightarrow> find (\<lambda>e. f e = f x) xs = Some x"
  by (induction xs) (auto simp: image_iff)

lemma find_on_board:
  assumes "0 < nTeams" "Suc m \<le> nRounds * nTeams"
  shows "find (\<lambda>pick. bp_pick pick = int (Suc m)) (draftBoardWith nRounds nTeams)
     = Some (boardEntry nTeams (roundOfPick nTeams (Suc m)) (pickInRoundOf nTeams (Suc m)))"
proof -
  let ?e = "boardEntry nTeams (roundOfPick nTeams (Suc m)) (pickInRoundOf nTeams (Suc m))"
  have "?e \<in> set (draftBoardWith nRounds nTeams)"
    using round_in_range [OF assms] pick_in_range [OF assms(1)]
    by (intro boardEntry_in_board) simp_all
  then have "find (\<lambda>pick. bp_pick pick = bp_pick ?e) (draftBoardWith nRounds nTeams) = Some ?e"
    using distinct_bp_pick by (rule find_by_key [rotated])
  then show ?thesis
    by (simp only: bp_pick_boardEntry [OF assms(1)])
qed

lemma filter_round:
  "distinct rs \<Longrightarrow>
     filter (\<lambda>pick. bp_round pick = int r) (concat (map (\<lambda>r'. map (boardEntry nTeams r') ks) rs))
       = (if r \<in> set rs then map (boardEntry nTeams r) ks else [])"
proof (induction rs)
  case Nil
  then show ?case by simp
next
  case (Cons a rs)
  have same: "filter (\<lambda>pick. bp_round pick = int r) (map (boardEntry nTeams a) ks)
      = (if a = r then map (boardEntry nTeams r) ks else [])"
    by (auto simp: filter_map o_def boardEntry_def)
  from Cons show ?case
    by (auto simp: same)
qed

lemma seats_odd:
  "odd r \<Longrightarrow> map (\<lambda>pick. teamIndex pick + 1) (map (boardEntry nTeams r) [1..<Suc nTeams])
     = map int [1..<Suc nTeams]"
  by (simp add: boardEntry_def o_def del: upt_Suc flip: odd_iff_mod_2_eq_one)

lemma seats_even:
  "even r \<Longrightarrow> map (\<lambda>pick. teamIndex pick + 1) (map (boardEntry nTeams r) [1..<Suc nTeams])
     = rev (map int [1..<Suc nTeams])"
  by (rule nth_equalityI)
     (auto simp: boardEntry_def rev_nth simp del: upt_Suc simp flip: odd_iff_mod_2_eq_one)

lemma roundSeats_board:
  assumes "1 \<le> r" "r \<le> nRounds"
  shows "roundSeats (draftBoardWith nRounds nTeams) r
     = (if odd r then map int [1..<Suc nTeams] else rev (map int [1..<Suc nTeams]))"
proof -
  have "r \<in> set [1..<Suc nRounds]"
    using assms by auto
  then have "filter (\<lambda>pick. bp_round pick = int r) (draftBoardWith nRounds nTeams)
      = map (boardEntry nTeams r) [1..<Suc nTeams]"
    unfolding draftBoardWith_closed by (subst filter_round) simp_all
  then show ?thesis
    unfolding roundSeats_def using seats_odd [of r nTeams] seats_even [of r nTeams]
    by (cases "odd r") (simp_all del: upt_Suc)
qed

text \<open>The seats on a board of any size; the page's board is the instance at 16 and 12.\<close>

lemma board_seats_general:
  assumes "0 < nTeams"
  shows "(1 \<le> p \<and> p \<le> nRounds * nTeams \<longrightarrow>
            find (\<lambda>pick. bp_pick pick = int p) (draftBoardWith nRounds nTeams)
              = Some \<lparr>bp_round = int (roundOfPick nTeams p), bp_pick = int p,
                      teamIndex = (if odd (roundOfPick nTeams p)
                                   then int (pickInRoundOf nTeams p) - 1
                                   else int nTeams - int (pickInRoundOf nTeams p))\<rparr>
            \<and> teamOnClock (draftBoardWith nRounds nTeams) (int p)
              = (if odd (roundOfPick nTeams p)
                 then int (pickInRoundOf nTeams p)
                 else int nTeams - int (pickInRoundOf nTeams p) + 1))
       \<and> (1 \<le> r \<and> r \<le> nRounds \<and> odd r \<longrightarrow>
            roundSeats (draftBoardWith nRounds nTeams) r = map int [1..<Suc nTeams])
       \<and> (1 \<le> r \<and> r \<le> nRounds \<and> even r \<longrightarrow>
            roundSeats (draftBoardWith nRounds nTeams) r = rev (map int [1..<Suc nTeams]))
       \<and> (1 \<le> r \<and> r + 1 \<le> nRounds \<and> odd r \<longrightarrow>
            rev (roundSeats (draftBoardWith nRounds nTeams) r
                 @ roundSeats (draftBoardWith nRounds nTeams) (r + 1))
              = roundSeats (draftBoardWith nRounds nTeams) r
                 @ roundSeats (draftBoardWith nRounds nTeams) (r + 1))"
proof -
  let ?board = "draftBoardWith nRounds nTeams"
  have seat: "find (\<lambda>pick. bp_pick pick = int p) ?board
              = Some \<lparr>bp_round = int (roundOfPick nTeams p), bp_pick = int p,
                      teamIndex = (if odd (roundOfPick nTeams p)
                                   then int (pickInRoundOf nTeams p) - 1
                                   else int nTeams - int (pickInRoundOf nTeams p))\<rparr>
            \<and> teamOnClock ?board (int p)
              = (if odd (roundOfPick nTeams p)
                 then int (pickInRoundOf nTeams p)
                 else int nTeams - int (pickInRoundOf nTeams p) + 1)"
    if "1 \<le> p" "p \<le> nRounds * nTeams"
  proof -
    from that(1) obtain m where p: "p = Suc m"
      by (cases p) simp_all
    have found: "find (\<lambda>pick. bp_pick pick = int p) ?board
        = Some (boardEntry nTeams (roundOfPick nTeams p) (pickInRoundOf nTeams p))"
      using find_on_board [OF assms, of m nRounds] that(2) unfolding p by simp
    have pick: "bp_pick (boardEntry nTeams (roundOfPick nTeams p) (pickInRoundOf nTeams p)) = int p"
      unfolding p by (rule bp_pick_boardEntry [OF assms])
    have entry: "boardEntry nTeams (roundOfPick nTeams p) (pickInRoundOf nTeams p)
        = \<lparr>bp_round = int (roundOfPick nTeams p), bp_pick = int p,
           teamIndex = (if odd (roundOfPick nTeams p)
                        then int (pickInRoundOf nTeams p) - 1
                        else int nTeams - int (pickInRoundOf nTeams p))\<rparr>"
      using pick by (simp add: boardEntry_def flip: odd_iff_mod_2_eq_one)
    show ?thesis
      by (simp add: found entry teamOnClock_def teamIndexAt_def)
  qed
  have odd_round: "roundSeats ?board r = map int [1..<Suc nTeams]"
    if "1 \<le> r" "r \<le> nRounds" "odd r" for r
    using that roundSeats_board [of r nRounds nTeams] by simp
  have even_round: "roundSeats ?board r = rev (map int [1..<Suc nTeams])"
    if "1 \<le> r" "r \<le> nRounds" "even r" for r
    using that roundSeats_board [of r nRounds nTeams] by simp
  have palindrome: "rev (roundSeats ?board r @ roundSeats ?board (r + 1))
      = roundSeats ?board r @ roundSeats ?board (r + 1)"
    if "1 \<le> r" "r + 1 \<le> nRounds" "odd r"
  proof -
    have "roundSeats ?board r = map int [1..<Suc nTeams]"
      using that by (intro odd_round) simp_all
    moreover have "roundSeats ?board (r + 1) = rev (map int [1..<Suc nTeams])"
      using that by (intro even_round) simp_all
    ultimately show ?thesis by simp
  qed
  from seat odd_round even_round palindrome show ?thesis by blast
qed

lemma off_board:
  assumes "p = 0 \<or> nRounds * nTeams < p"
  shows "find (\<lambda>pick. bp_pick pick = int p) (draftBoardWith nRounds nTeams) = None"
proof -
  have eq: "set (map bp_pick (draftBoardWith nRounds nTeams)) = int ` {1..<Suc (nRounds * nTeams)}"
    by (simp only: draftBoardWith_closed bp_pick_board set_map set_upt)
  have "int p \<notin> int ` {1..<Suc (nRounds * nTeams)}"
  proof
    assume "int p \<in> int ` {1..<Suc (nRounds * nTeams)}"
    then obtain q where "int p = int q" and "q \<in> {1..<Suc (nRounds * nTeams)}"
      by blast
    then have "p \<in> {1..<Suc (nRounds * nTeams)}"
      by simp
    with assms show False
      by auto
  qed
  with eq have out: "int p \<notin> bp_pick ` set (draftBoardWith nRounds nTeams)"
    by simp
  show ?thesis
    unfolding find_None_iff
  proof
    assume "\<exists>x. x \<in> set (draftBoardWith nRounds nTeams) \<and> bp_pick x = int p"
    then obtain x where "x \<in> set (draftBoardWith nRounds nTeams)" and "bp_pick x = int p"
      by blast
    then have "int p \<in> bp_pick ` set (draftBoardWith nRounds nTeams)"
      by (metis image_eqI)
    with out show False
      by blast
  qed
qed

lemma twelve_seats: "map int [Suc 0..<13] = [1, 2, 3, 4, 5, 6, 7, 8, 9, 10, 11, 12]"
  by code_simp

text \<open>
  C3, as stated, fails: the page builds its board for 12 teams and 16 rounds and does not
  read the draft. For a ten-team snake draft, pick 11 is the first pick of round 2, an even
  round, so the seat is 10 - 1 + 1 = 10; the page's board puts team 11 on the clock.
\<close>

theorem page_board_ten_teams_counterexample:
  "draftType tenTeamDraft = snake
   \<and> numTeams tenTeamDraft = 10
   \<and> roundOfPick 10 11 = 2
   \<and> pickInRoundOf 10 11 = 1
   \<and> numTeams tenTeamDraft - int (pickInRoundOf 10 11) + 1 = 10
   \<and> teamOnClock draftBoard 11 = 11"
  by code_simp

text \<open>
  C3, amended. The page computes seats on a board fixed at 12 teams and 16 rounds,
  whatever the draft. For every pick number \<open>p\<close> from 1 to 192, with round
  \<open>ceil(p / 12)\<close> and pick within the round \<open>p - (round - 1) * 12\<close>, the entry found has
  that round, and the team on the clock is the pick within the round when the round is
  odd and \<open>12 - pickInRound + 1\<close> when it is even. Every odd round visits seats 1 to 12
  ascending, every even round 12 to 1 descending, and the seats of an odd round followed
  by those of the next round read the same in both directions. For pick number 0 and for
  pick numbers past 192 the board has no entry and the page shows team 1.
\<close>

theorem page_board_seats:
  "(1 \<le> p \<and> p \<le> 192 \<longrightarrow>
      (let rnd = (p + 12 - 1) div 12; inRound = p - (rnd - 1) * 12
       in find (\<lambda>pick. bp_pick pick = int p) draftBoard
            = Some \<lparr>bp_round = int rnd, bp_pick = int p,
                    teamIndex = (if odd rnd then int inRound - 1 else 12 - int inRound)\<rparr>
          \<and> teamOnClock draftBoard (int p)
            = (if odd rnd then int inRound else 12 - int inRound + 1)))
   \<and> (p = 0 \<or> 192 < p \<longrightarrow>
        teamIndexAt draftBoard (int p) = None \<and> teamOnClock draftBoard (int p) = 1)
   \<and> (1 \<le> r \<and> r \<le> 16 \<and> odd r \<longrightarrow>
        roundSeats draftBoard r = [1, 2, 3, 4, 5, 6, 7, 8, 9, 10, 11, 12])
   \<and> (1 \<le> r \<and> r \<le> 16 \<and> even r \<longrightarrow>
        roundSeats draftBoard r = [12, 11, 10, 9, 8, 7, 6, 5, 4, 3, 2, 1])
   \<and> (1 \<le> r \<and> r + 1 \<le> 16 \<and> odd r \<longrightarrow>
        rev (roundSeats draftBoard r @ roundSeats draftBoard (r + 1))
          = roundSeats draftBoard r @ roundSeats draftBoard (r + 1))"
proof -
  have teams: "(0::nat) < 12"
    by simp
  note general = board_seats_general [OF teams, of p 16 r, folded draftBoard_def]
  have on_board: "1 \<le> p \<and> p \<le> 192 \<longrightarrow>
      (let rnd = (p + 12 - 1) div 12; inRound = p - (rnd - 1) * 12
       in find (\<lambda>pick. bp_pick pick = int p) draftBoard
            = Some \<lparr>bp_round = int rnd, bp_pick = int p,
                    teamIndex = (if odd rnd then int inRound - 1 else 12 - int inRound)\<rparr>
          \<and> teamOnClock draftBoard (int p)
            = (if odd rnd then int inRound else 12 - int inRound + 1))"
    using general by (simp add: Let_def roundOfPick_def pickInRoundOf_def)
  have off: "p = 0 \<or> 192 < p \<longrightarrow>
        teamIndexAt draftBoard (int p) = None \<and> teamOnClock draftBoard (int p) = 1"
    using off_board [of p 16 12, folded draftBoard_def]
    by (simp add: teamIndexAt_def teamOnClock_def)
  have odd_round: "1 \<le> r \<and> r \<le> 16 \<and> odd r \<longrightarrow>
        roundSeats draftBoard r = [1, 2, 3, 4, 5, 6, 7, 8, 9, 10, 11, 12]"
    using general by (simp add: twelve_seats del: upt_Suc)
  have even_round: "1 \<le> r \<and> r \<le> 16 \<and> even r \<longrightarrow>
        roundSeats draftBoard r = [12, 11, 10, 9, 8, 7, 6, 5, 4, 3, 2, 1]"
    using general by (simp add: twelve_seats del: upt_Suc)
  have palindrome: "1 \<le> r \<and> r + 1 \<le> 16 \<and> odd r \<longrightarrow>
        rev (roundSeats draftBoard r @ roundSeats draftBoard (r + 1))
          = roundSeats draftBoard r @ roundSeats draftBoard (r + 1)"
    using general by blast
  from on_board off odd_round even_round palindrome show ?thesis
    by (intro conjI)
qed

theorem page_board_seats_witness:
  "teamOnClock draftBoard 19 = 6
   \<and> teamOnClock draftBoard 193 = 1
   \<and> roundSeats draftBoard 1 = [1, 2, 3, 4, 5, 6, 7, 8, 9, 10, 11, 12]
   \<and> roundSeats draftBoard 2 = [12, 11, 10, 9, 8, 7, 6, 5, 4, 3, 2, 1]
   \<and> rev (roundSeats draftBoard 1 @ roundSeats draftBoard 2)
       = roundSeats draftBoard 1 @ roundSeats draftBoard 2"
proof -
  have c: "teamOnClock draftBoard 19 = 6"
    using page_board_seats [of 19 1] by (simp add: Let_def)
  have d: "teamOnClock draftBoard 193 = 1"
    using page_board_seats [of 193 1] by simp
  have s1: "roundSeats draftBoard 1 = [1, 2, 3, 4, 5, 6, 7, 8, 9, 10, 11, 12]"
    using page_board_seats [of 19 1] by simp
  have s2: "roundSeats draftBoard 2 = [12, 11, 10, 9, 8, 7, 6, 5, 4, 3, 2, 1]"
    using page_board_seats [of 19 2] by simp
  show ?thesis
    unfolding c d s1 s2 by simp
qed


section \<open>Picks route: properties\<close>

lemma POST_early:
  "POST_checks db req = Inl early \<Longrightarrow> POST db newId req = (db, early)"
  by (simp add: POST_def)

lemma POST_checks_Inr:
  assumes "POST_checks db req = Inr (d, p, pk)"
  shows "\<exists>uid raw. sessionUser req = Some uid \<and> isUuid (draftId req)
      \<and> ownedDraft db (draftId req) uid = Some d \<and> status d \<noteq> st_completed
      \<and> body req = Body raw \<and> makePickSchema raw = Some pk
      \<and> find (\<lambda>q. player_id q = uuidOf (playerId pk)) (players db) = Some p
      \<and> find (\<lambda>k. pick_draftId k = uuidOf (draftId req)
                   \<and> pick_playerId k = uuidOf (playerId pk)) (draftPicks db) = None"
  using assms
  by (auto simp: POST_checks_def split: option.splits if_splits requestBody.splits)

lemma POST_checks_early_cases:
  assumes "POST_checks db req = Inl early"
  shows "early \<in> {Unauthorized, InvalidDraftId, DraftNotFound, DraftCompleted, FailedToMakePick,
      InvalidRequest, PlayerNotFound, PlayerAlreadyDrafted}"
  using assms
  by (auto simp: POST_checks_def split: option.splits if_splits requestBody.splits)

lemma POST_writes_cases:
  "snd (POST_writes db newId did c) = FailedToMakePick
   \<or> snd (POST_writes db newId did c) = Created (newPick newId did (snd (snd c)))"
  by (cases c) (auto simp: POST_writes_def Let_def)

lemma POST_Created:
  assumes "POST db newId req = (db', Created row)"
  shows "\<exists>d p pk. POST_checks db req = Inr (d, p, pk)
      \<and> row = newPick newId (draftId req) pk
      \<and> newId \<notin> pick_id ` set (draftPicks db)
      \<and> pgInteger (pickRound pk) \<and> pgInteger (pickNumber pk) \<and> pgInteger (pickInRound pk)
      \<and> pgInteger (pickNumber pk + 1)
      \<and> db' = (let updated = updateDraft (draftId req)
                     (\<lambda>d. d\<lparr>status := st_in_progress, currentRound := Some (pickRound pk),
                             currentPick := Some (pickNumber pk + 1)\<rparr>)
                     (db\<lparr>draftPicks := draftPicks db @ [row]\<rparr>)
                in if pickNumber pk \<ge> numTeams d * rosterSize d
                   then updateDraft (draftId req) (\<lambda>d. d\<lparr>status := st_completed\<rparr>) updated
                   else updated)"
proof (cases "POST_checks db req")
  case (Inl early)
  with assms POST_checks_early_cases [OF Inl] show ?thesis
    by (auto simp: POST_def)
next
  case (Inr c)
  obtain d p pk where c: "c = (d, p, pk)"
    by (cases c) auto
  from assms Inr show ?thesis
    unfolding c by (auto simp: POST_def POST_writes_def Let_def split: if_splits)
qed


lemma POST_checks_team:
  assumes "body req = Body raw" "1 \<le> t" "t \<le> 20"
    and "POST_checks db req = Inr (d, p, pk)"
  shows "POST_checks db (req\<lparr>body := Body (raw\<lparr>f_teamNumber := t\<rparr>)\<rparr>)
     = Inr (d, p, pk\<lparr>teamNumber := t\<rparr>)"
  using assms
  by (auto simp: POST_checks_def sessionUser_def makePickSchema_def ownedDraft_def
      split: option.splits if_splits)

lemma POST_rejected_unchanged:
  assumes "POST db newId req = (db', r)" "statusCode r \<in> {400, 401, 404}"
  shows "db' = db"
proof (cases "POST_checks db req")
  case (Inl early)
  with assms show ?thesis by (simp add: POST_def)
next
  case (Inr c)
  with assms POST_writes_cases [of db newId "draftId req" c] show ?thesis
    by (auto simp: POST_def)
qed

lemma drafts_POST_writes_team:
  "drafts (fst (POST_writes db newId did (d, p, pk\<lparr>teamNumber := t\<rparr>)))
     = drafts (fst (POST_writes db newId did (d, p, pk)))"
  by (simp add: POST_writes_def Let_def updateDraft_def)

lemma POST_team:
  assumes "body req = Body raw" "1 \<le> t" "t \<le> 20"
    and "POST db newId req = (db', Created row)"
  shows "pick_teamNumber row = f_teamNumber raw"
    and "snd (POST db newId (req\<lparr>body := Body (raw\<lparr>f_teamNumber := t\<rparr>)\<rparr>))
       = Created (row\<lparr>pick_teamNumber := t\<rparr>)"
    and "drafts (fst (POST db newId (req\<lparr>body := Body (raw\<lparr>f_teamNumber := t\<rparr>)\<rparr>))) = drafts db'"
proof -
  from POST_Created [OF assms(4)] obtain d p pk where
    checks: "POST_checks db req = Inr (d, p, pk)"
    and row: "row = newPick newId (draftId req) pk"
    and fresh: "newId \<notin> pick_id ` set (draftPicks db)"
    and ints: "pgInteger (pickRound pk)" "pgInteger (pickNumber pk)" "pgInteger (pickInRound pk)"
      "pgInteger (pickNumber pk + 1)"
    by blast
  from POST_checks_Inr [OF checks] assms(1) have pk: "makePickSchema raw = Some pk"
    by auto
  then show "pick_teamNumber row = f_teamNumber raw"
    by (auto simp: row newPick_def makePickSchema_def split: if_splits)
  let ?req = "req\<lparr>body := Body (raw\<lparr>f_teamNumber := t\<rparr>)\<rparr>"
  have checks': "POST_checks db ?req = Inr (d, p, pk\<lparr>teamNumber := t\<rparr>)"
    using assms(1-3) checks by (rule POST_checks_team)
  show "snd (POST db newId ?req) = Created (row\<lparr>pick_teamNumber := t\<rparr>)"
    using fresh ints by (simp add: POST_def checks' POST_writes_def Let_def row newPick_def)
  have "drafts (fst (POST db newId ?req)) = drafts (fst (POST db newId req))"
    by (simp add: POST_def checks checks' drafts_POST_writes_team)
  then show "drafts (fst (POST db newId ?req)) = drafts db'"
    by (simp add: assms(4))
qed

lemma find_map_update:
  assumes "\<And>d. key (f d) = key d"
  shows "find (\<lambda>d. key d = k) (map (\<lambda>d. if key d = k then f d else d) ds)
     = map_option f (find (\<lambda>d. key d = k) ds)"
  using assms by (induction ds) auto

lemma getDraft_updateDraft:
  assumes "\<And>d. draft_id (f d) = draft_id d"
  shows "getDraft (updateDraft did f db) did = map_option f (getDraft db did)"
  using find_map_update [of draft_id f "uuidOf did" "drafts db"] assms
  by (simp add: getDraft_def updateDraft_def)

lemma getDraft_draftPicks [simp]:
  "getDraft (db\<lparr>draftPicks := ks\<rparr>) did = getDraft db did"
  by (simp add: getDraft_def)

lemma ownedDraft_getDraft:
  assumes "ownedDraft db did uid = Some d"
  shows "\<exists>d0. getDraft db did = Some d0"
proof (cases "getDraft db did")
  case None
  then have "\<forall>x \<in> set (drafts db). draft_id x \<noteq> uuidOf did"
    by (auto simp: getDraft_def find_None_iff)
  moreover from assms have "d \<in> set (drafts db) \<and> draft_id d = uuidOf did"
    by (auto simp: ownedDraft_def find_Some_iff)
  ultimately show ?thesis by blast
next
  case (Some d0)
  then show ?thesis by blast
qed

lemma POST_currentPick:
  assumes "POST db newId req = (db', Created row)"
  shows "\<exists>raw d d'. body req = Body raw \<and> pick_pickNumber row = f_pickNumber raw
      \<and> getDraft db (draftId req) = Some d \<and> getDraft db' (draftId req) = Some d'
      \<and> currentPick d' = Some (f_pickNumber raw + 1)"
proof -
  from POST_Created [OF assms] obtain d p pk where
    checks: "POST_checks db req = Inr (d, p, pk)"
    and row: "row = newPick newId (draftId req) pk"
    and db': "db' = (let updated = updateDraft (draftId req)
                     (\<lambda>d. d\<lparr>status := st_in_progress, currentRound := Some (pickRound pk),
                             currentPick := Some (pickNumber pk + 1)\<rparr>)
                     (db\<lparr>draftPicks := draftPicks db @ [row]\<rparr>)
                in if pickNumber pk \<ge> numTeams d * rosterSize d
                   then updateDraft (draftId req) (\<lambda>d. d\<lparr>status := st_completed\<rparr>) updated
                   else updated)"
    by blast
  from POST_checks_Inr [OF checks] obtain uid raw where
    owned: "ownedDraft db (draftId req) uid = Some d"
    and raw: "body req = Body raw" "makePickSchema raw = Some pk"
    by blast
  from ownedDraft_getDraft [OF owned] obtain d0 where d0: "getDraft db (draftId req) = Some d0"
    by blast
  have pn: "pickNumber pk = f_pickNumber raw"
    using raw(2) by (auto simp: makePickSchema_def split: if_splits)
  have "\<exists>d'. getDraft db' (draftId req) = Some d' \<and> currentPick d' = Some (f_pickNumber raw + 1)"
    unfolding db' by (simp add: Let_def getDraft_updateDraft d0 pn)
  with raw(1) d0 pn show ?thesis
    by (auto simp: row newPick_def)
qed


lemma lastPickOf_None: "lastPickOf db did = None \<longleftrightarrow> picksOf db did = []"
proof -
  let ?sorted = "sort_key (\<lambda>k. - pick_pickNumber k) (picksOf db did)"
  have "length ?sorted = length (picksOf db did)"
    by (rule length_sort)
  then have "?sorted = [] \<longleftrightarrow> picksOf db did = []"
    by (metis length_0_conv)
  then show ?thesis
    by (cases ?sorted) (simp_all add: lastPickOf_def picksOf_def)
qed

lemma lastPickOf_Some:
  assumes "lastPickOf db did = Some lp"
  shows "lp \<in> set (picksOf db did)"
    and "\<forall>k \<in> set (picksOf db did). pick_pickNumber k \<le> pick_pickNumber lp"
proof -
  let ?f = "\<lambda>k. - pick_pickNumber k"
  from assms obtain others where sorted_eq: "sort_key ?f (picksOf db did) = lp # others"
    by (auto simp: lastPickOf_def picksOf_def split: list.splits)
  have "set (sort_key ?f (picksOf db did)) = set (picksOf db did)"
    by simp
  with sorted_eq have set_eq: "set (picksOf db did) = insert lp (set others)"
    by simp
  then show "lp \<in> set (picksOf db did)"
    by simp
  have "sorted (map ?f (sort_key ?f (picksOf db did)))"
    by (rule sorted_sort_key)
  with sorted_eq have "\<forall>k \<in> set others. ?f lp \<le> ?f k"
    by simp
  with set_eq show "\<forall>k \<in> set (picksOf db did). pick_pickNumber k \<le> pick_pickNumber lp"
    by auto
qed

lemma sort_key_snoc_least:
  assumes "\<forall>y \<in> set xs. f x < f y"
  shows "sort_key f (xs @ [x]) = x # sort_key f xs"
  using assms
proof (induction xs)
  case Nil
  then show ?case by simp
next
  case (Cons y ys)
  then have "\<not> f y \<le> f x" and "sort_key f (ys @ [x]) = x # sort_key f ys"
    by (simp_all add: not_le)
  then show ?case by simp
qed

lemma lastPickOf_inserted:
  assumes "pick_draftId row = uuidOf did"
    and "\<forall>k \<in> set (picksOf db did). pick_pickNumber k < pick_pickNumber row"
  shows "lastPickOf (db\<lparr>draftPicks := draftPicks db @ [row]\<rparr>) did = Some row"
proof -
  have "sort_key (\<lambda>k. - pick_pickNumber k) (picksOf db did @ [row])
      = row # sort_key (\<lambda>k. - pick_pickNumber k) (picksOf db did)"
    using assms(2) by (intro sort_key_snoc_least) simp
  then show ?thesis
    using assms(1) by (simp add: lastPickOf_def picksOf_def)
qed

lemma picksOf_updateDraft [simp]: "picksOf (updateDraft did' f db) did = picksOf db did"
  by (simp add: picksOf_def updateDraft_def)

lemma lastPickOf_updateDraft [simp]:
  "lastPickOf (updateDraft did' f db) did = lastPickOf db did"
  by (simp add: lastPickOf_def)

lemma ownedDraft_draftPicks [simp]:
  "ownedDraft (db\<lparr>draftPicks := ks\<rparr>) did uid = ownedDraft db did uid"
  by (simp add: ownedDraft_def)

lemma DELETE_Undone:
  assumes "DELETE db req = (db', Undone pid)"
  shows "\<exists>uid d lp. sessionUser req = Some uid \<and> isUuid (draftId req)
      \<and> ownedDraft db (draftId req) uid = Some d
      \<and> lastPickOf db (draftId req) = Some lp \<and> pick_isUserPick lp = Some True
      \<and> pid = pick_id lp
      \<and> db' = updateDraft (draftId req)
                 (\<lambda>d. d\<lparr>status := (if pick_pickNumber lp = 1 then st_setup else st_in_progress),
                         currentRound := Some (pick_round lp),
                         currentPick := Some (pick_pickNumber lp)\<rparr>)
                 (db\<lparr>draftPicks := filter (\<lambda>k. pick_id k \<noteq> pick_id lp) (draftPicks db)\<rparr>)"
  using assms
  by (auto simp: DELETE_def Let_def split: option.splits if_splits)

lemma DELETE_authorized:
  assumes "sessionUser req = Some uid" "isUuid (draftId req)"
    and "ownedDraft db (draftId req) uid = Some d"
  shows "DELETE db req =
     (case lastPickOf db (draftId req) of
        None \<Rightarrow> (db, NoPicksToUndo)
      | Some lp \<Rightarrow>
          if pick_isUserPick lp \<noteq> Some True then (db, ForbiddenUndo)
          else (updateDraft (draftId req)
                 (\<lambda>d. d\<lparr>status := (if pick_pickNumber lp = 1 then st_setup else st_in_progress),
                         currentRound := Some (pick_round lp),
                         currentPick := Some (pick_pickNumber lp)\<rparr>)
                 (db\<lparr>draftPicks := filter (\<lambda>k. pick_id k \<noteq> pick_id lp) (draftPicks db)\<rparr>),
                Undone (pick_id lp)))"
  using assms by (simp add: DELETE_def Let_def split: option.splits)

lemma DELETE_rejected:
  assumes "DELETE db req = (db', r)" "r = NoPicksToUndo \<or> r = ForbiddenUndo"
  shows "db' = db"
  using assms
  by (auto simp: DELETE_def Let_def split: option.splits if_splits)


lemma find_map_keep:
  assumes "\<And>d. P (g d) = P d"
  shows "find P (map g ds) = map_option g (find P ds)"
  using assms by (induction ds) auto

lemma ownedDraft_updateDraft:
  assumes "\<And>d. draft_id (f d) = draft_id d" "\<And>d. userId (f d) = userId d"
  shows "ownedDraft (updateDraft did' f db) did uid
     = map_option (\<lambda>d. if draft_id d = uuidOf did' then f d else d) (ownedDraft db did uid)"
  unfolding ownedDraft_def updateDraft_def using assms
  by (simp add: find_map_keep)

lemma draftPicks_updateDraft [simp]: "draftPicks (updateDraft did f db) = draftPicks db"
  by (simp add: updateDraft_def)

lemma players_updateDraft [simp]: "players (updateDraft did f db) = players db"
  by (simp add: updateDraft_def)

lemma updateDraft_twice:
  assumes "\<And>d. draft_id (f d) = draft_id d"
  shows "updateDraft did g (updateDraft did f db) = updateDraft did (g \<circ> f) db"
  by (simp add: updateDraft_def o_def assms cong: if_cong)

text \<open>The database a successful pick leaves behind.\<close>

lemma POST_Created_db:
  assumes "POST db newId req = (db', Created row)"
  shows "\<exists>f. db' = updateDraft (draftId req) f (db\<lparr>draftPicks := draftPicks db @ [row]\<rparr>)
      \<and> (\<forall>d. draft_id (f d) = draft_id d \<and> userId (f d) = userId d)"
proof -
  from POST_Created [OF assms] obtain d p pk where
    "POST_checks db req = Inr (d, p, pk)" and
    db': "db' = (let updated = updateDraft (draftId req)
                     (\<lambda>d. d\<lparr>status := st_in_progress, currentRound := Some (pickRound pk),
                             currentPick := Some (pickNumber pk + 1)\<rparr>)
                     (db\<lparr>draftPicks := draftPicks db @ [row]\<rparr>)
                in if pickNumber pk \<ge> numTeams d * rosterSize d
                   then updateDraft (draftId req) (\<lambda>d. d\<lparr>status := st_completed\<rparr>) updated
                   else updated)"
    by blast
  let ?advance = "\<lambda>d. d\<lparr>status := st_in_progress, currentRound := Some (pickRound pk),
                             currentPick := Some (pickNumber pk + 1)\<rparr>"
  let ?complete = "\<lambda>d. d\<lparr>status := st_completed\<rparr>"
  show ?thesis
  proof (cases "pickNumber pk \<ge> numTeams d * rosterSize d")
    case True
    then have "db' = updateDraft (draftId req) (?complete \<circ> ?advance)
        (db\<lparr>draftPicks := draftPicks db @ [row]\<rparr>)"
      unfolding db' by (simp add: Let_def updateDraft_twice)
    then show ?thesis
      by (intro exI [of _ "?complete \<circ> ?advance"]) simp
  next
    case False
    then have "db' = updateDraft (draftId req) ?advance
        (db\<lparr>draftPicks := draftPicks db @ [row]\<rparr>)"
      unfolding db' by (simp add: Let_def)
    then show ?thesis
      by (intro exI [of _ ?advance]) simp
  qed
qed

lemma POST_then_DELETE:
  assumes post: "POST db newId req = (db1, Created row)"
    and mine: "pick_isUserPick row = Some True"
    and highest: "\<forall>k \<in> set (picksOf db (draftId req)). pick_pickNumber k < pick_pickNumber row"
  shows "DELETE db1 req =
     (updateDraft (draftId req)
        (\<lambda>d. d\<lparr>status := (if pick_pickNumber row = 1 then st_setup else st_in_progress),
                currentRound := Some (pick_round row),
                currentPick := Some (pick_pickNumber row)\<rparr>) db,
      Undone newId)"
proof -
  let ?undo = "\<lambda>d. d\<lparr>status := (if pick_pickNumber row = 1 then st_setup else st_in_progress),
                currentRound := Some (pick_round row),
                currentPick := Some (pick_pickNumber row)\<rparr>"
  from POST_Created [OF post] obtain d p pk where
    checks: "POST_checks db req = Inr (d, p, pk)"
    and row: "row = newPick newId (draftId req) pk"
    and fresh: "newId \<notin> pick_id ` set (draftPicks db)"
    by blast
  from POST_checks_Inr [OF checks] obtain uid where
    user: "sessionUser req = Some uid" and uuid: "isUuid (draftId req)"
    and owned: "ownedDraft db (draftId req) uid = Some d"
    by blast
  from POST_Created_db [OF post] obtain f where
    db1: "db1 = updateDraft (draftId req) f (db\<lparr>draftPicks := draftPicks db @ [row]\<rparr>)"
    and keep: "\<And>d. draft_id (f d) = draft_id d" "\<And>d. userId (f d) = userId d"
    by blast
  have owned1: "ownedDraft db1 (draftId req) uid
      = Some (if draft_id d = uuidOf (draftId req) then f d else d)"
    unfolding db1 by (simp add: ownedDraft_updateDraft keep owned)
  have row_draft: "pick_draftId row = uuidOf (draftId req)" and row_id: "pick_id row = newId"
    by (simp_all add: row newPick_def)
  have "picksOf (db\<lparr>draftPicks := draftPicks db @ [row]\<rparr>) (draftId req)
      = picksOf db (draftId req) @ [row]"
    by (simp add: picksOf_def row_draft)
  have last1: "lastPickOf db1 (draftId req) = Some row"
    unfolding db1 using lastPickOf_inserted [OF row_draft highest] by simp
  have kept: "filter (\<lambda>k. pick_id k \<noteq> newId) (draftPicks db) = draftPicks db"
    using fresh by (auto simp: filter_id_conv)
  have picks1: "filter (\<lambda>k. pick_id k \<noteq> pick_id row) (draftPicks db1) = draftPicks db"
    unfolding db1 by (simp add: row_id kept)
  have restored: "updateDraft (draftId req) ?undo
      (db1\<lparr>draftPicks := filter (\<lambda>k. pick_id k \<noteq> pick_id row) (draftPicks db1)\<rparr>)
      = updateDraft (draftId req) ?undo db"
  proof -
    from POST_Created [OF post] obtain d' p' pk' where
      "POST_checks db req = Inr (d', p', pk')" and
      "db1 = (let updated = updateDraft (draftId req)
                     (\<lambda>d. d\<lparr>status := st_in_progress, currentRound := Some (pickRound pk'),
                             currentPick := Some (pickNumber pk' + 1)\<rparr>)
                     (db\<lparr>draftPicks := draftPicks db @ [row]\<rparr>)
                in if pickNumber pk' \<ge> numTeams d' * rosterSize d'
                   then updateDraft (draftId req) (\<lambda>d. d\<lparr>status := st_completed\<rparr>) updated
                   else updated)"
      by blast
    then show ?thesis
      by (auto simp: Let_def updateDraft_def o_def row_id kept cong: if_cong split: if_splits)
  qed
  have "DELETE db1 req =
     (updateDraft (draftId req) ?undo
        (db1\<lparr>draftPicks := filter (\<lambda>k. pick_id k \<noteq> pick_id row) (draftPicks db1)\<rparr>),
      Undone (pick_id row))"
    unfolding DELETE_authorized [OF user uuid owned1] by (simp add: last1 mine)
  then have "DELETE db1 req = (updateDraft (draftId req) ?undo db, Undone (pick_id row))"
    by (simp only: restored)
  then show ?thesis
    by (simp only: row_id)
qed

text \<open>
  What later requests keep: neither handler writes the players table, a pick request
  removes no pick row, and an undo removes only the rows with the id it answers with.
\<close>

lemma POST_keeps:
  assumes "POST db newId req = (db', r)"
  shows "players db' = players db \<and> set (draftPicks db) \<subseteq> set (draftPicks db')"
proof (cases "POST_checks db req")
  case (Inl early)
  with assms show ?thesis
    by (simp add: POST_def)
next
  case (Inr c)
  obtain d p pk where c: "c = (d, p, pk)"
    by (cases c) auto
  from assms Inr show ?thesis
    unfolding c by (auto simp: POST_def POST_writes_def Let_def split: if_splits)
qed

lemma DELETE_keeps:
  assumes "DELETE db req = (db', r)"
  shows "players db' = players db
     \<and> (\<forall>k \<in> set (draftPicks db). r \<noteq> Undone (pick_id k) \<longrightarrow> k \<in> set (draftPicks db'))"
  using assms
  by (auto simp: DELETE_def Let_def split: option.splits if_splits)

lemma perform_keeps:
  assumes "perform db op = (db', r)"
  shows "players db' = players db
     \<and> (\<forall>k \<in> set (draftPicks db). r \<noteq> Undone (pick_id k) \<longrightarrow> k \<in> set (draftPicks db'))"
proof (cases op)
  case (MakePick newId req)
  with assms POST_keeps [of db newId req db' r] show ?thesis
    by auto
next
  case (UndoLastPick req)
  with assms DELETE_keeps [of db req db' r] show ?thesis
    by simp
qed

lemma serve_keeps:
  assumes "serve db ops = (db', rs)" and "k \<in> set (draftPicks db)"
    and "Undone (pick_id k) \<notin> set rs"
  shows "players db' = players db \<and> k \<in> set (draftPicks db')"
  using assms
proof (induction ops arbitrary: db rs)
  case Nil
  then show ?case by simp
next
  case (Cons op ops)
  obtain db1 r where step: "perform db op = (db1, r)"
    by (cases "perform db op") auto
  obtain db2 rs2 where rest: "serve db1 ops = (db2, rs2)"
    by (cases "serve db1 ops") auto
  from Cons.prems(1) step rest have eq: "db2 = db'" "rs = r # rs2"
    by simp_all
  from Cons.prems(3) eq have r: "r \<noteq> Undone (pick_id k)" and rs2: "Undone (pick_id k) \<notin> set rs2"
    by auto
  from perform_keeps [OF step] Cons.prems(2) r have
    p1: "players db1 = players db" and k1: "k \<in> set (draftPicks db1)"
    by auto
  from Cons.IH [OF rest [unfolded eq(1)] k1 rs2] p1 show ?case
    by simp
qed

lemma POST_taken:
  assumes row: "k \<in> set (draftPicks db)"
    and did: "pick_draftId k = uuidOf (draftId req)"
    and pid: "pick_playerId k = uuidOf (f_playerId raw)"
    and raw: "body req = Body raw"
    and known: "find (\<lambda>q. player_id q = uuidOf (f_playerId raw)) (players db) \<noteq> None"
  shows "\<exists>r. POST db newId req = (db, r)
      \<and> r \<in> {Unauthorized, InvalidDraftId, DraftNotFound, DraftCompleted, InvalidRequest,
              PlayerAlreadyDrafted}"
proof -
  from row did pid have taken: "find (\<lambda>k. pick_draftId k = uuidOf (draftId req)
                        \<and> pick_playerId k = uuidOf (f_playerId raw)) (draftPicks db) \<noteq> None"
    unfolding find_None_iff by blast
  have pid2: "playerId pk = f_playerId raw" if "makePickSchema raw = Some pk" for pk
    using that by (auto simp: makePickSchema_def split: if_splits)
  have "\<exists>r. POST_checks db req = Inl r
      \<and> r \<in> {Unauthorized, InvalidDraftId, DraftNotFound, DraftCompleted, InvalidRequest,
               PlayerAlreadyDrafted}"
    using taken known raw pid2
    by (auto simp: POST_checks_def split: option.splits)
  then show ?thesis
    by (auto simp: POST_def)
qed

lemma POST_recorded:
  assumes post: "POST db newId req = (db1, Created row)" and raw: "body req = Body raw"
  shows "row \<in> set (draftPicks db1) \<and> pick_id row = newId
     \<and> pick_draftId row = uuidOf (draftId req) \<and> pick_playerId row = uuidOf (f_playerId raw)
     \<and> players db1 = players db
     \<and> find (\<lambda>q. player_id q = uuidOf (f_playerId raw)) (players db) \<noteq> None"
proof -
  from POST_Created [OF post] obtain d p pk where
    checks: "POST_checks db req = Inr (d, p, pk)"
    and row: "row = newPick newId (draftId req) pk"
    by blast
  from POST_checks_Inr [OF checks] raw have
    pk: "makePickSchema raw = Some pk"
    and player: "find (\<lambda>q. player_id q = uuidOf (playerId pk)) (players db) = Some p"
    by auto
  have pid: "playerId pk = f_playerId raw"
    using pk by (auto simp: makePickSchema_def split: if_splits)
  from POST_Created_db [OF post] obtain f where
    db1: "db1 = updateDraft (draftId req) f (db\<lparr>draftPicks := draftPicks db @ [row]\<rparr>)"
    by blast
  have "players db1 = players db" "draftPicks db1 = draftPicks db @ [row]"
    by (simp_all add: db1)
  with player show ?thesis
    by (simp add: row newPick_def pid)
qed

section \<open>Picks route: turn order (C1)\<close>

text \<open>
  C1, as stated, fails: in a four-team snake draft the board puts seat 1 on the clock at
  pick 1, yet a pick submitted for seat 3 is accepted (201), the draft's current pick
  advances from 1 to 2 and the row is recorded with team number 3.
\<close>

theorem POST_out_of_turn_counterexample:
  "draftType fourTeamDraft = snake
   \<and> teamOnClock (draftBoardWith 5 4) 1 = 1
   \<and> map currentPick (drafts freshDb) = [Some 1]
   \<and> snd (POST freshDb (pickUuid 1) (pickRequest 1 3 1 1 1 False))
       = Created (newPick (pickUuid 1) draftD1
           \<lparr>playerId = playerUuid 1, teamNumber = 3, pickRound = 1, pickNumber = 1,
            pickInRound = 1, isUserPick = False\<rparr>)
   \<and> map currentPick (drafts (fst (POST freshDb (pickUuid 1) (pickRequest 1 3 1 1 1 False))))
       = [Some 2]
   \<and> map pick_teamNumber
         (draftPicks (fst (POST freshDb (pickUuid 1) (pickRequest 1 3 1 1 1 False)))) = [3]"
  by code_simp

text \<open>
  C1, amended. For every draft, of any draft type, the handler does not compare the
  submitted team number with a seat: a submission that is accepted records the team number
  as submitted, and the same submission with any other team number from 1 to 20 is
  accepted as well, with the same effect on the draft. A submission rejected with a 400,
  401 or 404 response leaves the database, and so the draft's current pick and the picks,
  unchanged.
\<close>

theorem POST_no_turn_check:
  assumes "body req = Body raw" "1 \<le> t" "t \<le> 20"
  shows "(\<forall>db' row. POST db newId req = (db', Created row) \<longrightarrow>
            pick_teamNumber row = f_teamNumber raw
            \<and> snd (POST db newId (req\<lparr>body := Body (raw\<lparr>f_teamNumber := t\<rparr>)\<rparr>))
                = Created (row\<lparr>pick_teamNumber := t\<rparr>)
            \<and> drafts (fst (POST db newId (req\<lparr>body := Body (raw\<lparr>f_teamNumber := t\<rparr>)\<rparr>)))
                = drafts db')
       \<and> (\<forall>db' r. POST db newId req = (db', r) \<and> statusCode r \<in> {400, 401, 404} \<longrightarrow>
            db' = db)"
  using POST_team [OF assms] POST_rejected_unchanged by blast

theorem POST_no_turn_check_witness:
  "snd (POST freshDb (pickUuid 1)
          ((pickRequest 1 1 1 1 1 False)\<lparr>body := Body (firstPickFields\<lparr>f_teamNumber := 3\<rparr>)\<rparr>))
     = Created ((newPick (pickUuid 1) draftD1
           \<lparr>playerId = playerUuid 1, teamNumber = 1, pickRound = 1, pickNumber = 1,
            pickInRound = 1, isUserPick = False\<rparr>)\<lparr>pick_teamNumber := 3\<rparr>)
   \<and> fst (POST freshDb (pickUuid 1) ((pickRequest 1 1 1 1 1 False)\<lparr>sessionUserId := None\<rparr>))
     = freshDb"
proof -
  let ?req = "pickRequest 1 1 1 1 1 False"
  let ?row = "newPick (pickUuid 1) draftD1
           \<lparr>playerId = playerUuid 1, teamNumber = 1, pickRound = 1, pickNumber = 1,
            pickInRound = 1, isUserPick = False\<rparr>"
  have fields: "body ?req = Body firstPickFields"
    by (simp add: pickRequest_def firstPickFields_def del: One_nat_def)
  have "snd (POST freshDb (pickUuid 1) ?req) = Created ?row"
    by code_simp
  then have accepted: "POST freshDb (pickUuid 1) ?req
      = (fst (POST freshDb (pickUuid 1) ?req), Created ?row)"
    by (simp add: prod_eq_iff)
  have fields': "body (?req\<lparr>sessionUserId := None\<rparr>) = Body firstPickFields"
    by (simp add: fields del: One_nat_def)
  have "snd (POST freshDb (pickUuid 1) (?req\<lparr>sessionUserId := None\<rparr>)) = Unauthorized"
    by code_simp
  then have rejected: "POST freshDb (pickUuid 1) (?req\<lparr>sessionUserId := None\<rparr>)
      = (fst (POST freshDb (pickUuid 1) (?req\<lparr>sessionUserId := None\<rparr>)), Unauthorized)"
    by (simp add: prod_eq_iff)
  have code: "statusCode Unauthorized \<in> {400, 401, 404}"
    by simp
  have three: "(1::int) \<le> 3" "(3::int) \<le> 20"
    by simp_all
  have a: "snd (POST freshDb (pickUuid 1) (?req\<lparr>body := Body (firstPickFields\<lparr>f_teamNumber := 3\<rparr>)\<rparr>))
      = Created (?row\<lparr>pick_teamNumber := 3\<rparr>)"
    using POST_no_turn_check [OF fields three, of freshDb "pickUuid 1"] accepted
    by (simp del: One_nat_def)
  have "\<forall>db' r. POST freshDb (pickUuid 1) (?req\<lparr>sessionUserId := None\<rparr>) = (db', r)
      \<and> statusCode r \<in> {400, 401, 404} \<longrightarrow> db' = freshDb"
    using POST_no_turn_check [OF fields' three, of freshDb "pickUuid 1"] by (rule conjunct2)
  with rejected code have b: "fst (POST freshDb (pickUuid 1) (?req\<lparr>sessionUserId := None\<rparr>)) = freshDb"
    by blast
  from a b show ?thesis by simp
qed

section \<open>Picks route: the current pick (C2)\<close>

text \<open>
  C2, as stated, fails: with the draft's current pick at 1, a submission with pick number
  7 is accepted and moves the current pick to 8.
\<close>

theorem POST_out_of_order_counterexample:
  "map currentPick (drafts freshDb) = [Some 1]
   \<and> snd (POST freshDb (pickUuid 1) (pickRequest 1 3 2 7 3 False))
       = Created (newPick (pickUuid 1) draftD1
           \<lparr>playerId = playerUuid 1, teamNumber = 3, pickRound = 2, pickNumber = 7,
            pickInRound = 3, isUserPick = False\<rparr>)
   \<and> map currentPick (drafts (fst (POST freshDb (pickUuid 1) (pickRequest 1 3 2 7 3 False))))
       = [Some 8]"
  by code_simp

text \<open>
  C2, amended. The submitted pick number is not compared with the draft's current pick.
  Every successful MakePick sets the current pick to the submitted pick number plus 1, so
  it increases the current pick by exactly 1 exactly when the submission carried the
  current pick. Every successful UndoLastPick sets the current pick to the pick number of
  the pick it removes (the one with the highest pick number), so it decreases the current
  pick by exactly 1 exactly when that pick number was the current pick minus 1.
\<close>

theorem currentPick_after_pick_and_undo:
  "(POST db newId req = (db', Created row) \<longrightarrow>
      (\<exists>raw d d'. body req = Body raw \<and> pick_pickNumber row = f_pickNumber raw
          \<and> getDraft db (draftId req) = Some d \<and> getDraft db' (draftId req) = Some d'
          \<and> currentPick d' = Some (f_pickNumber raw + 1)
          \<and> (\<forall>c. currentPick d = Some c \<longrightarrow>
                (currentPick d' = Some (c + 1) \<longleftrightarrow> f_pickNumber raw = c))))
   \<and> (DELETE db req = (db', Undone pid) \<longrightarrow>
      (\<exists>lp d d'. lastPickOf db (draftId req) = Some lp \<and> pick_id lp = pid
          \<and> getDraft db (draftId req) = Some d \<and> getDraft db' (draftId req) = Some d'
          \<and> currentPick d' = Some (pick_pickNumber lp)
          \<and> (\<forall>c. currentPick d = Some c \<longrightarrow>
                (currentPick d' = Some (c - 1) \<longleftrightarrow> pick_pickNumber lp = c - 1))))"
proof (intro conjI impI)
  assume "POST db newId req = (db', Created row)"
  from POST_currentPick [OF this] obtain raw d d' where
    "body req = Body raw" "pick_pickNumber row = f_pickNumber raw"
    "getDraft db (draftId req) = Some d" "getDraft db' (draftId req) = Some d'"
    "currentPick d' = Some (f_pickNumber raw + 1)"
    by blast
  then show "\<exists>raw d d'. body req = Body raw \<and> pick_pickNumber row = f_pickNumber raw
          \<and> getDraft db (draftId req) = Some d \<and> getDraft db' (draftId req) = Some d'
          \<and> currentPick d' = Some (f_pickNumber raw + 1)
          \<and> (\<forall>c. currentPick d = Some c \<longrightarrow>
                (currentPick d' = Some (c + 1) \<longleftrightarrow> f_pickNumber raw = c))"
    by (intro exI [of _ raw] exI [of _ d] exI [of _ d']) simp
next
  assume "DELETE db req = (db', Undone pid)"
  from DELETE_Undone [OF this] obtain uid d0 lp where
    owned: "ownedDraft db (draftId req) uid = Some d0"
    and lp: "lastPickOf db (draftId req) = Some lp" "pid = pick_id lp"
    and db': "db' = updateDraft (draftId req)
                 (\<lambda>d. d\<lparr>status := (if pick_pickNumber lp = 1 then st_setup else st_in_progress),
                         currentRound := Some (pick_round lp),
                         currentPick := Some (pick_pickNumber lp)\<rparr>)
                 (db\<lparr>draftPicks := filter (\<lambda>k. pick_id k \<noteq> pick_id lp) (draftPicks db)\<rparr>)"
    by blast
  from ownedDraft_getDraft [OF owned] obtain d where d: "getDraft db (draftId req) = Some d"
    by blast
  have "\<exists>d'. getDraft db' (draftId req) = Some d' \<and> currentPick d' = Some (pick_pickNumber lp)"
    unfolding db' by (simp add: getDraft_updateDraft d)
  then obtain d' where "getDraft db' (draftId req) = Some d'"
    "currentPick d' = Some (pick_pickNumber lp)"
    by blast
  with lp d show "\<exists>lp d d'. lastPickOf db (draftId req) = Some lp \<and> pick_id lp = pid
          \<and> getDraft db (draftId req) = Some d \<and> getDraft db' (draftId req) = Some d'
          \<and> currentPick d' = Some (pick_pickNumber lp)
          \<and> (\<forall>c. currentPick d = Some c \<longrightarrow>
                (currentPick d' = Some (c - 1) \<longleftrightarrow> pick_pickNumber lp = c - 1))"
    by (intro exI [of _ lp] exI [of _ d] exI [of _ d']) simp
qed

theorem currentPick_after_pick_and_undo_witness:
  "map_option currentPick
     (getDraft (fst (POST freshDb (pickUuid 1) (pickRequest 1 1 1 1 1 True))) draftD1)
     = Some (Some 2)
   \<and> map_option currentPick
     (getDraft (fst (DELETE (fst (POST freshDb (pickUuid 1) (pickRequest 1 1 1 1 1 True)))
                      undoRequest)) draftD1)
     = Some (Some 1)"
proof -
  let ?req = "pickRequest 1 1 1 1 1 True"
  let ?row = "newPick (pickUuid 1) draftD1
           \<lparr>playerId = playerUuid 1, teamNumber = 1, pickRound = 1, pickNumber = 1,
            pickInRound = 1, isUserPick = True\<rparr>"
  let ?db1 = "fst (POST freshDb (pickUuid 1) ?req)"
  have "snd (POST freshDb (pickUuid 1) ?req) = Created ?row"
    by code_simp
  then have accepted: "POST freshDb (pickUuid 1) ?req = (?db1, Created ?row)"
    by (simp add: prod_eq_iff)
  have "snd (DELETE ?db1 undoRequest) = Undone (pickUuid 1)"
    by code_simp
  then have undone: "DELETE ?db1 undoRequest = (fst (DELETE ?db1 undoRequest), Undone (pickUuid 1))"
    by (simp add: prod_eq_iff)
  have ids: "draftId ?req = draftD1" "draftId undoRequest = draftD1"
    by (simp_all add: pickRequest_def undoRequest_def del: One_nat_def)
  have pn: "pick_pickNumber ?row = 1"
    by (simp add: newPick_def)
  have last: "lastPickOf ?db1 draftD1 = Some ?row"
    by code_simp
  have a: "map_option currentPick (getDraft ?db1 draftD1) = Some (Some 2)"
    using currentPick_after_pick_and_undo [of freshDb "pickUuid 1" ?req ?db1 ?row "pickUuid 1"]
      accepted
    by (auto simp: ids pn simp del: One_nat_def)
  have b: "map_option currentPick (getDraft (fst (DELETE ?db1 undoRequest)) draftD1) = Some (Some 1)"
    using currentPick_after_pick_and_undo
      [of ?db1 "pickUuid 1" undoRequest "fst (DELETE ?db1 undoRequest)" ?row "pickUuid 1"] undone
    by (auto simp: ids pn last simp del: One_nat_def)
  from a b show ?thesis by simp
qed

section \<open>Picks route: undo after a pick (C4)\<close>

text \<open>
  C4, as stated, fails, in two ways. With the current pick at 1, a pick submitted with
  pick number 2 and then undone leaves the current pick at 2, not at its value before the
  pick. And after the four picks of round 1, each made in turn, the draft stands at round
  1, pick 5; the user's pick 5 (round 2) followed at once by its undo leaves the draft at
  round 2, not at round 1.
\<close>

theorem undo_after_pick_counterexample:
  "map currentPick (drafts freshDb) = [Some 1]
   \<and> snd (POST freshDb (pickUuid 1) (pickRequest 1 2 1 2 2 True))
       = Created (newPick (pickUuid 1) draftD1
           \<lparr>playerId = playerUuid 1, teamNumber = 2, pickRound = 1, pickNumber = 2,
            pickInRound = 2, isUserPick = True\<rparr>)
   \<and> snd (DELETE (fst (POST freshDb (pickUuid 1) (pickRequest 1 2 1 2 2 True))) undoRequest)
       = Undone (pickUuid 1)
   \<and> map currentPick
         (drafts (fst (DELETE (fst (POST freshDb (pickUuid 1) (pickRequest 1 2 1 2 2 True)))
                         undoRequest))) = [Some 2]
   \<and> afterPicks freshDb roundOnePicks = roundOneDb
   \<and> map currentRound (drafts roundOneDb) = [Some 1]
   \<and> map currentPick (drafts roundOneDb) = [Some 5]
   \<and> snd (POST roundOneDb (pickUuid 5) (pickRequest 5 4 2 5 1 True))
       = Created (newPick (pickUuid 5) draftD1
           \<lparr>playerId = playerUuid 5, teamNumber = 4, pickRound = 2, pickNumber = 5,
            pickInRound = 1, isUserPick = True\<rparr>)
   \<and> snd (DELETE (fst (POST roundOneDb (pickUuid 5) (pickRequest 5 4 2 5 1 True))) undoRequest)
       = Undone (pickUuid 5)
   \<and> map currentRound
         (drafts (fst (DELETE (fst (POST roundOneDb (pickUuid 5) (pickRequest 5 4 2 5 1 True)))
                         undoRequest))) = [Some 2]"
  by code_simp

text \<open>
  C4, amended. For every draft state, when a MakePick succeeds that was submitted as the
  user's pick (\<open>isUserPick\<close> true) with a pick number higher than every recorded pick of
  the draft, an UndoLastPick performed immediately after it succeeds and removes exactly
  the inserted row: the picks are those before the MakePick, and the drafts are those
  before the MakePick except that the draft's current pick and current round are the
  submitted pick number and round (so the current pick is restored when the pick was
  submitted with the current pick), and that its status is \<open>setup\<close> exactly when the
  undone pick was pick number 1 and \<open>in_progress\<close> otherwise.
\<close>

theorem undo_after_pick:
  assumes "POST db newId req = (db1, Created row)"
    and "pick_isUserPick row = Some True"
    and "\<forall>k \<in> set (picksOf db (draftId req)). pick_pickNumber k < pick_pickNumber row"
  shows "DELETE db1 req =
           (updateDraft (draftId req)
              (\<lambda>d. d\<lparr>status := (if pick_pickNumber row = 1 then st_setup else st_in_progress),
                      currentRound := Some (pick_round row),
                      currentPick := Some (pick_pickNumber row)\<rparr>) db,
            Undone newId)
       \<and> draftPicks (fst (DELETE db1 req)) = draftPicks db
       \<and> (\<exists>d d2. getDraft db (draftId req) = Some d
             \<and> getDraft (fst (DELETE db1 req)) (draftId req) = Some d2
             \<and> currentPick d2 = Some (pick_pickNumber row)
             \<and> currentRound d2 = Some (pick_round row)
             \<and> (status d2 = st_setup \<longleftrightarrow> pick_pickNumber row = 1)
             \<and> (status d2 = st_in_progress \<longleftrightarrow> pick_pickNumber row \<noteq> 1)
             \<and> (currentPick d = Some (pick_pickNumber row) \<longrightarrow> currentPick d2 = currentPick d))"
proof -
  let ?undo = "\<lambda>d. d\<lparr>status := (if pick_pickNumber row = 1 then st_setup else st_in_progress),
                      currentRound := Some (pick_round row),
                      currentPick := Some (pick_pickNumber row)\<rparr>"
  have undone: "DELETE db1 req = (updateDraft (draftId req) ?undo db, Undone newId)"
    using assms by (rule POST_then_DELETE)
  from POST_currentPick [OF assms(1)] obtain d where d: "getDraft db (draftId req) = Some d"
    by blast
  have d2: "getDraft (fst (DELETE db1 req)) (draftId req) = Some (?undo d)"
    unfolding undone by (simp add: getDraft_updateDraft d)
  have "getDraft db (draftId req) = Some d
      \<and> getDraft (fst (DELETE db1 req)) (draftId req) = Some (?undo d)
      \<and> currentPick (?undo d) = Some (pick_pickNumber row)
      \<and> currentRound (?undo d) = Some (pick_round row)
      \<and> (status (?undo d) = st_setup \<longleftrightarrow> pick_pickNumber row = 1)
      \<and> (status (?undo d) = st_in_progress \<longleftrightarrow> pick_pickNumber row \<noteq> 1)
      \<and> (currentPick d = Some (pick_pickNumber row) \<longrightarrow> currentPick (?undo d) = currentPick d)"
    using d d2 by simp
  then have drafts: "\<exists>d d2. getDraft db (draftId req) = Some d
             \<and> getDraft (fst (DELETE db1 req)) (draftId req) = Some d2
             \<and> currentPick d2 = Some (pick_pickNumber row)
             \<and> currentRound d2 = Some (pick_round row)
             \<and> (status d2 = st_setup \<longleftrightarrow> pick_pickNumber row = 1)
             \<and> (status d2 = st_in_progress \<longleftrightarrow> pick_pickNumber row \<noteq> 1)
             \<and> (currentPick d = Some (pick_pickNumber row) \<longrightarrow> currentPick d2 = currentPick d)"
    by (intro exI [of _ d] exI [of _ "?undo d"])
  have picks: "draftPicks (fst (DELETE db1 req)) = draftPicks db"
    unfolding undone by simp
  from undone picks drafts show ?thesis
    by (intro conjI)
qed

theorem undo_after_pick_witness:
  "DELETE (fst (POST roundOneDb (pickUuid 5) (pickRequest 5 4 2 5 1 True)))
      (pickRequest 5 4 2 5 1 True)
     = (updateDraft draftD1
          (\<lambda>d. d\<lparr>status := st_in_progress, currentRound := Some 2, currentPick := Some 5\<rparr>)
          roundOneDb,
        Undone (pickUuid 5))
   \<and> draftPicks (fst (DELETE (fst (POST roundOneDb (pickUuid 5) (pickRequest 5 4 2 5 1 True)))
                         (pickRequest 5 4 2 5 1 True)))
     = draftPicks roundOneDb"
proof -
  let ?req = "pickRequest 5 4 2 5 1 True"
  let ?row = "newPick (pickUuid 5) draftD1
           \<lparr>playerId = playerUuid 5, teamNumber = 4, pickRound = 2, pickNumber = 5,
            pickInRound = 1, isUserPick = True\<rparr>"
  let ?db1 = "fst (POST roundOneDb (pickUuid 5) ?req)"
  have "snd (POST roundOneDb (pickUuid 5) ?req) = Created ?row"
    by code_simp
  then have accepted: "POST roundOneDb (pickUuid 5) ?req = (?db1, Created ?row)"
    by (simp add: prod_eq_iff)
  have mine: "pick_isUserPick ?row = Some True"
    by (simp add: newPick_def)
  have "\<forall>k \<in> set (picksOf roundOneDb draftD1). pick_pickNumber k < 5"
    by code_simp
  then have highest: "\<forall>k \<in> set (picksOf roundOneDb (draftId ?req)).
      pick_pickNumber k < pick_pickNumber ?row"
    by (simp add: pickRequest_def newPick_def)
  have fields: "draftId ?req = draftD1" "pick_pickNumber ?row = 5" "pick_round ?row = 2"
    by (simp_all add: pickRequest_def newPick_def)
  from undo_after_pick [OF accepted mine highest] show ?thesis
    by (simp add: fields)
qed

section \<open>Picks route: who may undo (C5)\<close>

text \<open>
  C5, as stated, fails: the user sits at seat 4; the only pick of the draft was made for
  seat 1 and submitted with \<open>isUserPick\<close> true; the undo succeeds, where the claim wants
  it refused because the pick belongs to another seat.
\<close>

theorem undo_other_seat_counterexample:
  "draftPosition fourTeamDraft = 4
   \<and> map pick_teamNumber
         (draftPicks (fst (POST freshDb (pickUuid 1) (pickRequest 1 1 1 1 1 True)))) = [1]
   \<and> map pick_isUserPick
         (draftPicks (fst (POST freshDb (pickUuid 1) (pickRequest 1 1 1 1 1 True)))) = [Some True]
   \<and> snd (DELETE (fst (POST freshDb (pickUuid 1) (pickRequest 1 1 1 1 1 True))) undoRequest)
       = Undone (pickUuid 1)"
  by code_simp

text \<open>
  C5, amended. UndoLastPick succeeds only when at least one pick of the draft exists and
  the most recent one (highest pick number) has \<open>isUserPick\<close> true; the pick's team number
  and the user's seat are not consulted. For an owner's request, when the draft has no
  picks it fails with 400 (no picks to undo), and when the most recent pick does not have
  \<open>isUserPick\<close> true it fails with 403; in both cases the database is unchanged.
  Otherwise it succeeds and names the removed pick.
\<close>

theorem undo_preconditions:
  "(DELETE db req = (db', Undone pid) \<longrightarrow>
      (\<exists>lp. lastPickOf db (draftId req) = Some lp \<and> pick_id lp = pid
         \<and> lp \<in> set (picksOf db (draftId req))
         \<and> (\<forall>k \<in> set (picksOf db (draftId req)). pick_pickNumber k \<le> pick_pickNumber lp)
         \<and> pick_isUserPick lp = Some True))
   \<and> (DELETE db req = (db', NoPicksToUndo) \<longrightarrow> db' = db \<and> picksOf db (draftId req) = [])
   \<and> (DELETE db req = (db', ForbiddenUndo) \<longrightarrow>
        db' = db \<and> (\<exists>lp. lastPickOf db (draftId req) = Some lp \<and> pick_isUserPick lp \<noteq> Some True))
   \<and> (sessionUser req = Some uid \<and> isUuid (draftId req)
        \<and> ownedDraft db (draftId req) uid = Some d \<longrightarrow>
        (picksOf db (draftId req) = [] \<longrightarrow> DELETE db req = (db, NoPicksToUndo))
        \<and> (\<forall>lp. lastPickOf db (draftId req) = Some lp \<longrightarrow>
              (if pick_isUserPick lp = Some True
               then snd (DELETE db req) = Undone (pick_id lp)
               else DELETE db req = (db, ForbiddenUndo))))"
proof (intro conjI impI)
  assume "DELETE db req = (db', Undone pid)"
  from DELETE_Undone [OF this] obtain lp where
    lp: "lastPickOf db (draftId req) = Some lp" "pick_isUserPick lp = Some True" "pid = pick_id lp"
    by blast
  with lastPickOf_Some [OF lp(1)]
  show "\<exists>lp. lastPickOf db (draftId req) = Some lp \<and> pick_id lp = pid
         \<and> lp \<in> set (picksOf db (draftId req))
         \<and> (\<forall>k \<in> set (picksOf db (draftId req)). pick_pickNumber k \<le> pick_pickNumber lp)
         \<and> pick_isUserPick lp = Some True"
    by (intro exI [of _ lp]) simp
next
  assume none: "DELETE db req = (db', NoPicksToUndo)"
  then show "db' = db"
    by (rule DELETE_rejected) simp
  from none have "lastPickOf db (draftId req) = None"
    by (auto simp: DELETE_def Let_def split: option.splits if_splits)
  then show "picksOf db (draftId req) = []"
    by (simp add: lastPickOf_None)
next
  assume forbidden: "DELETE db req = (db', ForbiddenUndo)"
  then show "db' = db"
    by (rule DELETE_rejected) simp
  from forbidden show "\<exists>lp. lastPickOf db (draftId req) = Some lp \<and> pick_isUserPick lp \<noteq> Some True"
    by (auto simp: DELETE_def Let_def split: option.splits if_splits)
next
  assume "sessionUser req = Some uid \<and> isUuid (draftId req)
      \<and> ownedDraft db (draftId req) uid = Some d"
    and "picksOf db (draftId req) = []"
  then show "DELETE db req = (db, NoPicksToUndo)"
    using DELETE_authorized [of req uid db d] by (simp add: lastPickOf_None [symmetric])
next
  assume "sessionUser req = Some uid \<and> isUuid (draftId req)
      \<and> ownedDraft db (draftId req) uid = Some d"
  then show "\<forall>lp. lastPickOf db (draftId req) = Some lp \<longrightarrow>
              (if pick_isUserPick lp = Some True
               then snd (DELETE db req) = Undone (pick_id lp)
               else DELETE db req = (db, ForbiddenUndo))"
    using DELETE_authorized [of req uid db d] by simp
qed

theorem undo_preconditions_witness:
  "DELETE freshDb undoRequest = (freshDb, NoPicksToUndo)
   \<and> DELETE (fst (POST freshDb (pickUuid 1) (pickRequest 1 1 1 1 1 False))) undoRequest
       = (fst (POST freshDb (pickUuid 1) (pickRequest 1 1 1 1 1 False)), ForbiddenUndo)
   \<and> snd (DELETE (fst (POST freshDb (pickUuid 1) (pickRequest 1 4 1 1 1 True))) undoRequest)
       = Undone (pickUuid 1)"
proof -
  let ?other = "fst (POST freshDb (pickUuid 1) (pickRequest 1 1 1 1 1 False))"
  let ?mine = "fst (POST freshDb (pickUuid 1) (pickRequest 1 4 1 1 1 True))"
  let ?otherPick = "newPick (pickUuid 1) draftD1
           \<lparr>playerId = playerUuid 1, teamNumber = 1, pickRound = 1, pickNumber = 1,
            pickInRound = 1, isUserPick = False\<rparr>"
  let ?myPick = "newPick (pickUuid 1) draftD1
           \<lparr>playerId = playerUuid 1, teamNumber = 4, pickRound = 1, pickNumber = 1,
            pickInRound = 1, isUserPick = True\<rparr>"
  let ?started = "fourTeamDraft\<lparr>status := st_in_progress, currentPick := Some 2\<rparr>"
  have owner: "sessionUser undoRequest = Some ''u1''" "isUuid (draftId undoRequest)"
    by code_simp+
  have owned: "ownedDraft freshDb (draftId undoRequest) ''u1'' = Some fourTeamDraft"
    by code_simp
  have owned_other: "ownedDraft ?other (draftId undoRequest) ''u1'' = Some ?started"
    by code_simp
  have owned_mine: "ownedDraft ?mine (draftId undoRequest) ''u1'' = Some ?started"
    by code_simp
  have none: "picksOf freshDb (draftId undoRequest) = []"
    by code_simp
  have last_other: "lastPickOf ?other (draftId undoRequest) = Some ?otherPick"
    by code_simp
  have last_mine: "lastPickOf ?mine (draftId undoRequest) = Some ?myPick"
    by code_simp
  have other_flag: "pick_isUserPick ?otherPick \<noteq> Some True"
    by (simp add: newPick_def)
  have my_flag: "pick_isUserPick ?myPick = Some True" and my_id: "pick_id ?myPick = pickUuid 1"
    by (simp_all add: newPick_def)
  have a: "DELETE freshDb undoRequest = (freshDb, NoPicksToUndo)"
    using undo_preconditions [of freshDb undoRequest freshDb "pickUuid 1" "''u1''" fourTeamDraft]
      owner owned none
    by blast
  have "if pick_isUserPick ?otherPick = Some True
      then snd (DELETE ?other undoRequest) = Undone (pick_id ?otherPick)
      else DELETE ?other undoRequest = (?other, ForbiddenUndo)"
    using undo_preconditions [of ?other undoRequest ?other "pickUuid 1" "''u1''" ?started]
      owner owned_other last_other
    by blast
  with other_flag have b: "DELETE ?other undoRequest = (?other, ForbiddenUndo)"
    by (simp only: if_False)
  have "if pick_isUserPick ?myPick = Some True
      then snd (DELETE ?mine undoRequest) = Undone (pick_id ?myPick)
      else DELETE ?mine undoRequest = (?mine, ForbiddenUndo)"
    using undo_preconditions [of ?mine undoRequest ?mine "pickUuid 1" "''u1''" ?started]
      owner owned_mine last_mine
    by blast
  with my_flag have c: "snd (DELETE ?mine undoRequest) = Undone (pickUuid 1)"
    by (simp only: if_True my_id)
  from a b c show ?thesis
    by (intro conjI)
qed

section \<open>Picks route: uniqueness of picks (C9)\<close>

text \<open>
  C9, as stated, fails. Run one after the other, two picks for the same draft and the same
  pick number 1 (for players 1 and 2) are both accepted. And when two requests for the
  same player both pass their checks before either writes, both are accepted and the
  player is recorded twice. No response of the handler is a conflict error.
\<close>

theorem POST_uniqueness_counterexample:
  "snd (POST freshDb (pickUuid 1) (pickRequest 1 1 1 1 1 False))
       = Created (newPick (pickUuid 1) draftD1
           \<lparr>playerId = playerUuid 1, teamNumber = 1, pickRound = 1, pickNumber = 1,
            pickInRound = 1, isUserPick = False\<rparr>)
   \<and> snd (POST (fst (POST freshDb (pickUuid 1) (pickRequest 1 1 1 1 1 False)))
             (pickUuid 2) (pickRequest 2 1 1 1 1 False))
       = Created (newPick (pickUuid 2) draftD1
           \<lparr>playerId = playerUuid 2, teamNumber = 1, pickRound = 1, pickNumber = 1,
            pickInRound = 1, isUserPick = False\<rparr>)
   \<and> map pick_pickNumber
         (draftPicks (fst (POST (fst (POST freshDb (pickUuid 1) (pickRequest 1 1 1 1 1 False)))
                            (pickUuid 2) (pickRequest 2 1 1 1 1 False)))) = [1, 1]
   \<and> POST_checks freshDb (pickRequest 1 1 1 1 1 False) = Inr checkedFirstPick
   \<and> statusCode (snd (POST_writes freshDb (pickUuid 1) draftD1 checkedFirstPick)) = 201
   \<and> statusCode (snd (POST_writes (fst (POST_writes freshDb (pickUuid 1) draftD1 checkedFirstPick))
                         (pickUuid 2) draftD1 checkedFirstPick)) = 201
   \<and> map pick_playerId
         (draftPicks (fst (POST_writes
                             (fst (POST_writes freshDb (pickUuid 1) draftD1 checkedFirstPick))
                             (pickUuid 2) draftD1 checkedFirstPick)))
       = [playerUuid 1, playerUuid 1]"
  by code_simp

text \<open>
  An undo frees the player: after the pick of player 1 is undone, a pick request for
  player 1 is accepted again.
\<close>

lemma POST_again_after_undo:
  "snd (POST freshDb (pickUuid 1) (pickRequest 1 1 1 1 1 True))
       = Created (newPick (pickUuid 1) draftD1
           \<lparr>playerId = playerUuid 1, teamNumber = 1, pickRound = 1, pickNumber = 1,
            pickInRound = 1, isUserPick = True\<rparr>)
   \<and> snd (DELETE (fst (POST freshDb (pickUuid 1) (pickRequest 1 1 1 1 1 True))) undoRequest)
       = Undone (pickUuid 1)
   \<and> snd (POST (fst (DELETE (fst (POST freshDb (pickUuid 1) (pickRequest 1 1 1 1 1 True)))
                         undoRequest))
             (pickUuid 2) (pickRequest 1 2 1 1 1 False))
       = Created (newPick (pickUuid 2) draftD1
           \<lparr>playerId = playerUuid 1, teamNumber = 2, pickRound = 1, pickNumber = 1,
            pickInRound = 1, isUserPick = False\<rparr>)"
  by code_simp

text \<open>
  C9, amended. When requests run one after the other: after a successful MakePick, and
  after any later pick and undo requests among which no undo answers with the id of that
  pick, the row of the pick is still in the picks table, and a MakePick for the same draft
  and the same player fails to record a pick: it is answered with 400
  \<open>Player already drafted\<close>, unless an earlier check of the handler rejects it first,
  and it leaves the database as it was. The picks table has no uniqueness constraint on
  draft and pick number or on draft and player, and the handler has no conflict error.
\<close>

theorem POST_same_player_until_undone:
  assumes post: "POST db newId req = (db1, Created row)"
    and raw: "body req = Body raw" and raw2: "body req2 = Body raw2"
    and same_draft: "uuidOf (draftId req2) = uuidOf (draftId req)"
    and same_player: "uuidOf (f_playerId raw2) = uuidOf (f_playerId raw)"
    and later: "serve db1 ops = (db2, rs)"
    and kept: "Undone newId \<notin> set rs"
  shows "row \<in> set (draftPicks db2)
     \<and> (\<exists>r2. POST db2 newId2 req2 = (db2, r2)
           \<and> r2 \<in> {Unauthorized, InvalidDraftId, DraftNotFound, DraftCompleted, InvalidRequest,
                    PlayerAlreadyDrafted})"
proof -
  from POST_recorded [OF post raw] have
    in1: "row \<in> set (draftPicks db1)" and id: "pick_id row = newId"
    and did: "pick_draftId row = uuidOf (draftId req)"
    and pid: "pick_playerId row = uuidOf (f_playerId raw)"
    and p1: "players db1 = players db"
    and known: "find (\<lambda>q. player_id q = uuidOf (f_playerId raw)) (players db) \<noteq> None"
    by blast+
  from kept id have "Undone (pick_id row) \<notin> set rs"
    by simp
  from serve_keeps [OF later in1 this] have
    p2: "players db2 = players db1" and in2: "row \<in> set (draftPicks db2)"
    by blast+
  have known2: "find (\<lambda>q. player_id q = uuidOf (f_playerId raw2)) (players db2) \<noteq> None"
    using known by (simp add: p2 p1 same_player)
  from POST_taken [OF in2 _ _ raw2 known2, of newId2] did pid same_draft same_player in2
  show ?thesis
    by simp
qed

theorem POST_same_player_until_undone_witness:
  "snd (serve (fst (POST freshDb (pickUuid 1) (pickRequest 1 1 1 1 1 False)))
          [MakePick (pickUuid 2) (pickRequest 2 2 1 2 2 True), UndoLastPick undoRequest])
     = [Created (newPick (pickUuid 2) draftD1
           \<lparr>playerId = playerUuid 2, teamNumber = 2, pickRound = 1, pickNumber = 2,
            pickInRound = 2, isUserPick = True\<rparr>),
        Undone (pickUuid 2)]
   \<and> newPick (pickUuid 1) draftD1
         \<lparr>playerId = playerUuid 1, teamNumber = 1, pickRound = 1, pickNumber = 1,
          pickInRound = 1, isUserPick = False\<rparr>
       \<in> set (draftPicks
           (fst (serve (fst (POST freshDb (pickUuid 1) (pickRequest 1 1 1 1 1 False)))
                   [MakePick (pickUuid 2) (pickRequest 2 2 1 2 2 True), UndoLastPick undoRequest])))
   \<and> POST (fst (serve (fst (POST freshDb (pickUuid 1) (pickRequest 1 1 1 1 1 False)))
                   [MakePick (pickUuid 2) (pickRequest 2 2 1 2 2 True), UndoLastPick undoRequest]))
        (pickUuid 3) (pickRequest 1 2 1 2 2 False)
       = (fst (serve (fst (POST freshDb (pickUuid 1) (pickRequest 1 1 1 1 1 False)))
                 [MakePick (pickUuid 2) (pickRequest 2 2 1 2 2 True), UndoLastPick undoRequest]),
          PlayerAlreadyDrafted)"
proof -
  let ?req = "pickRequest 1 1 1 1 1 False"
  let ?req2 = "pickRequest 1 2 1 2 2 False"
  let ?row = "newPick (pickUuid 1) draftD1
           \<lparr>playerId = playerUuid 1, teamNumber = 1, pickRound = 1, pickNumber = 1,
            pickInRound = 1, isUserPick = False\<rparr>"
  let ?db1 = "fst (POST freshDb (pickUuid 1) ?req)"
  let ?ops = "[MakePick (pickUuid 2) (pickRequest 2 2 1 2 2 True), UndoLastPick undoRequest]"
  let ?db2 = "fst (serve ?db1 ?ops)"
  let ?rs = "snd (serve ?db1 ?ops)"
  have "snd (POST freshDb (pickUuid 1) ?req) = Created ?row"
    by code_simp
  then have accepted: "POST freshDb (pickUuid 1) ?req = (?db1, Created ?row)"
    by (simp add: prod_eq_iff)
  have bodies: "body ?req = Body firstPickFields"
    "body ?req2 = Body (firstPickFields\<lparr>f_teamNumber := 2, f_pickNumber := 2, f_pickInRound := 2\<rparr>)"
    by (simp_all add: pickRequest_def firstPickFields_def del: One_nat_def)
  have same: "uuidOf (draftId ?req2) = uuidOf (draftId ?req)"
    "uuidOf (f_playerId (firstPickFields\<lparr>f_teamNumber := 2, f_pickNumber := 2, f_pickInRound := 2\<rparr>))
       = uuidOf (f_playerId firstPickFields)"
    by (simp_all add: pickRequest_def)
  have later: "serve ?db1 ?ops = (?db2, ?rs)"
    by (simp add: prod_eq_iff)
  have answers: "?rs = [Created (newPick (pickUuid 2) draftD1
           \<lparr>playerId = playerUuid 2, teamNumber = 2, pickRound = 1, pickNumber = 2,
            pickInRound = 2, isUserPick = True\<rparr>),
        Undone (pickUuid 2)]"
    by code_simp
  have kept: "Undone (pickUuid 1) \<notin> set ?rs"
    by code_simp
  from POST_same_player_until_undone [OF accepted bodies same later kept, of "pickUuid 3"]
  obtain r2 where row: "?row \<in> set (draftPicks ?db2)"
    and r2: "POST ?db2 (pickUuid 3) ?req2 = (?db2, r2)"
    by blast
  have "snd (POST ?db2 (pickUuid 3) ?req2) = PlayerAlreadyDrafted"
    by code_simp
  with r2 have "POST ?db2 (pickUuid 3) ?req2 = (?db2, PlayerAlreadyDrafted)"
    by simp
  with answers row show ?thesis
    by blast
qed


end
